theory Spec2Isabelle
  imports Complex_Main "HOL-Library.AList" "HOL-Library.Sublist"
begin

section \<open>Numbers of the host language\<close>

text \<open>
  The program is TypeScript; its values of type \<open>number\<close> are binary64 floating-point
  numbers.  A number is modelled as a real (the value of a finite number), one of
  the two infinities, or NaN.  The sign of zero is not part of the model: the program
  divides by the constants \<open>180\<close> and \<open>2\<close> only, and the arguments that it passes to
  \<open>Math.atan2\<close> are square roots of a sum and of a difference that are never a
  negative zero.  Every arithmetic operation computes the exact real result and
  rounds it to the nearest binary64 value, ties to even, as IEEE 754 prescribes:
  results beyond the largest finite value become an infinity, results of a magnitude
  up to half the least subnormal become zero.  NaN is absorbing, \<open>\<infinity> - \<infinity>\<close> and
  \<open>0 \<sdot> \<infinity>\<close> are NaN, the trigonometric functions of an infinity are NaN, the square
  root of a negative number is NaN.
\<close>

datatype jsnum = Fin real | PInf | NInf | NaN

fun js_neg :: "jsnum \<Rightarrow> jsnum" where
  "js_neg (Fin x) = Fin (- x)"
| "js_neg PInf = NInf"
| "js_neg NInf = PInf"
| "js_neg NaN = NaN"

text \<open>
  The infinity with the sign of a real, NaN for zero: the product of an infinity and a
  finite number, the quotient of a finite number by zero, and the result of an
  overflow.
\<close>

definition inf_of_sign :: "real \<Rightarrow> jsnum" where
  "inf_of_sign s = (if s = 0 then NaN else if 0 < s then PInf else NInf)"

subsection \<open>Rounding to binary64\<close>

text \<open>
  A finite binary64 value is \<open>m \<sdot> 2\<^sup>e\<^sup>-\<^sup>5\<^sup>2\<close> with an integer \<open>m\<close> of magnitude below \<open>2\<^sup>5\<^sup>3\<close>
  and an exponent \<open>e\<close> from \<open>-1022\<close> to \<open>1023\<close>.  \<open>expo x\<close> is the exponent of the binade
  of \<open>x\<close> (that of the subnormal numbers below \<open>2\<^sup>-\<^sup>1\<^sup>0\<^sup>2\<^sup>2\<close>), \<open>ulp x\<close> the distance between
  neighbouring values there, \<open>rne\<close> rounds to the nearest integer with ties to the even
  one, \<open>nearest x\<close> is the multiple of \<open>ulp x\<close> nearest to \<open>x\<close>, and \<open>round64\<close> turns a
  result whose rounded magnitude reaches \<open>2\<^sup>1\<^sup>0\<^sup>2\<^sup>4\<close> into an infinity.
\<close>

definition pow2 :: "int \<Rightarrow> real" where
  "pow2 k = 2 powr of_int k"

definition expo :: "real \<Rightarrow> int" where
  "expo x = max \<lfloor>log 2 \<bar>x\<bar>\<rfloor> (- 1022)"

definition ulp :: "real \<Rightarrow> real" where
  "ulp x = pow2 (expo x - 52)"

definition rne :: "real \<Rightarrow> int" where
  "rne q =
     (if q - of_int \<lfloor>q\<rfloor> < 1 / 2 then \<lfloor>q\<rfloor>
      else if 1 / 2 < q - of_int \<lfloor>q\<rfloor> then \<lfloor>q\<rfloor> + 1
      else if even \<lfloor>q\<rfloor> then \<lfloor>q\<rfloor> else \<lfloor>q\<rfloor> + 1)"

definition nearest :: "real \<Rightarrow> real" where
  "nearest x = of_int (rne (x / ulp x)) * ulp x"

definition round64 :: "real \<Rightarrow> jsnum" where
  "round64 x = (if pow2 1024 \<le> \<bar>nearest x\<bar> then inf_of_sign x else Fin (nearest x))"

subsection \<open>The operators and the functions of \<open>Math\<close>\<close>

text \<open>
  \<open>+\<close>, \<open>-\<close>, \<open>*\<close>, \<open>/\<close> and \<open>Math.sqrt\<close> are correctly rounded by the standard.  The
  language leaves the accuracy of \<open>Math.sin\<close>, \<open>Math.cos\<close> and \<open>Math.atan2\<close> to the
  implementation; they are modelled as correctly rounded too.
\<close>

fun js_add :: "jsnum \<Rightarrow> jsnum \<Rightarrow> jsnum" where
  "js_add (Fin x) (Fin y) = round64 (x + y)"
| "js_add NaN _ = NaN"
| "js_add _ NaN = NaN"
| "js_add PInf NInf = NaN"
| "js_add NInf PInf = NaN"
| "js_add PInf _ = PInf"
| "js_add NInf _ = NInf"
| "js_add (Fin x) PInf = PInf"
| "js_add (Fin x) NInf = NInf"

definition js_sub :: "jsnum \<Rightarrow> jsnum \<Rightarrow> jsnum" where
  "js_sub x y = js_add x (js_neg y)"

fun js_mul :: "jsnum \<Rightarrow> jsnum \<Rightarrow> jsnum" where
  "js_mul (Fin x) (Fin y) = round64 (x * y)"
| "js_mul NaN _ = NaN"
| "js_mul _ NaN = NaN"
| "js_mul (Fin x) PInf = inf_of_sign x"
| "js_mul (Fin x) NInf = inf_of_sign (- x)"
| "js_mul PInf (Fin y) = inf_of_sign y"
| "js_mul NInf (Fin y) = inf_of_sign (- y)"
| "js_mul PInf PInf = PInf"
| "js_mul PInf NInf = NInf"
| "js_mul NInf PInf = NInf"
| "js_mul NInf NInf = PInf"

fun js_div :: "jsnum \<Rightarrow> jsnum \<Rightarrow> jsnum" where
  "js_div (Fin x) (Fin y) = (if y = 0 then inf_of_sign x else round64 (x / y))"
| "js_div NaN _ = NaN"
| "js_div _ NaN = NaN"
| "js_div (Fin x) PInf = Fin 0"
| "js_div (Fin x) NInf = Fin 0"
| "js_div PInf (Fin y) = (if y < 0 then NInf else PInf)"
| "js_div NInf (Fin y) = (if y < 0 then PInf else NInf)"
| "js_div PInf PInf = NaN"
| "js_div PInf NInf = NaN"
| "js_div NInf PInf = NaN"
| "js_div NInf NInf = NaN"

fun js_sin :: "jsnum \<Rightarrow> jsnum" where
  "js_sin (Fin x) = round64 (sin x)"
| "js_sin _ = NaN"

fun js_cos :: "jsnum \<Rightarrow> jsnum" where
  "js_cos (Fin x) = round64 (cos x)"
| "js_cos _ = NaN"

fun js_sqrt :: "jsnum \<Rightarrow> jsnum" where
  "js_sqrt (Fin x) = (if x < 0 then NaN else round64 (sqrt x))"
| "js_sqrt PInf = PInf"
| "js_sqrt _ = NaN"

text \<open>
  \<open>Math.atan2(y, x)\<close>: the angle of the point \<open>(x, y)\<close>, in \<open>(-\<pi>, \<pi>]\<close>; at the origin
  the result is \<open>0\<close> (the origin with positive zeros).
\<close>

definition atan2 :: "real \<Rightarrow> real \<Rightarrow> real" where
  "atan2 y x =
     (if 0 < x then arctan (y / x)
      else if x < 0 then (if 0 \<le> y then arctan (y / x) + pi else arctan (y / x) - pi)
      else if 0 < y then pi / 2
      else if y < 0 then - (pi / 2)
      else 0)"

fun js_atan2 :: "jsnum \<Rightarrow> jsnum \<Rightarrow> jsnum" where
  "js_atan2 (Fin y) (Fin x) = round64 (atan2 y x)"
| "js_atan2 NaN _ = NaN"
| "js_atan2 _ NaN = NaN"
| "js_atan2 PInf PInf = round64 (pi / 4)"
| "js_atan2 PInf NInf = round64 (3 * pi / 4)"
| "js_atan2 NInf PInf = round64 (- (pi / 4))"
| "js_atan2 NInf NInf = round64 (- (3 * pi / 4))"
| "js_atan2 PInf (Fin x) = round64 (pi / 2)"
| "js_atan2 NInf (Fin x) = round64 (- (pi / 2))"
| "js_atan2 (Fin y) PInf = Fin 0"
| "js_atan2 (Fin y) NInf = round64 (if y < 0 then - pi else pi)"

text \<open>
  The comparisons \<open>\<le>\<close> and \<open><\<close> (false when an argument is NaN), and \<open>Math.min\<close> and
  \<open>Math.max\<close> of two arguments (NaN when either argument is NaN).
\<close>

fun js_le :: "jsnum \<Rightarrow> jsnum \<Rightarrow> bool" where
  "js_le NaN _ = False"
| "js_le _ NaN = False"
| "js_le NInf _ = True"
| "js_le _ PInf = True"
| "js_le (Fin x) (Fin y) = (x \<le> y)"
| "js_le _ _ = False"

fun js_lt :: "jsnum \<Rightarrow> jsnum \<Rightarrow> bool" where
  "js_lt NaN _ = False"
| "js_lt _ NaN = False"
| "js_lt (Fin x) (Fin y) = (x < y)"
| "js_lt NInf NInf = False"
| "js_lt NInf _ = True"
| "js_lt PInf _ = False"
| "js_lt (Fin x) PInf = True"
| "js_lt (Fin x) NInf = False"

definition js_min :: "jsnum \<Rightarrow> jsnum \<Rightarrow> jsnum" where
  "js_min x y = (if x = NaN \<or> y = NaN then NaN else if js_le x y then x else y)"

definition js_max :: "jsnum \<Rightarrow> jsnum \<Rightarrow> jsnum" where
  "js_max x y = (if x = NaN \<or> y = NaN then NaN else if js_le x y then y else x)"

section \<open>The distance engine\<close>

text \<open>
  \<open>calculateDistance\<close> (App.tsx, lines 191 to 208): the haversine formula on a sphere
  of radius 6371 km, written operation by operation as the source has it.  \<open>Math.PI\<close>
  is the binary64 value nearest to \<open>\<pi>\<close>, \<open>884279719003555 / 2\<^sup>4\<^sup>8\<close>.
\<close>

definition MathPI :: jsnum where
  "MathPI = Fin (884279719003555 / 281474976710656)"

definition toRad :: "jsnum \<Rightarrow> jsnum" where
  "toRad x = js_div (js_mul x MathPI) (Fin 180)"

text \<open>The local \<open>a\<close> of \<open>calculateDistance\<close> (lines 200 to 205).\<close>

definition haversine_a :: "jsnum \<Rightarrow> jsnum \<Rightarrow> jsnum \<Rightarrow> jsnum \<Rightarrow> jsnum" where
  "haversine_a lat1 lon1 lat2 lon2 =
     (let dLat = toRad (js_sub lat2 lat1);
          dLon = toRad (js_sub lon2 lon1)
      in js_add
           (js_mul (js_sin (js_div dLat (Fin 2))) (js_sin (js_div dLat (Fin 2))))
           (js_mul
              (js_mul
                 (js_mul (js_cos (toRad lat1)) (js_cos (toRad lat2)))
                 (js_sin (js_div dLon (Fin 2))))
              (js_sin (js_div dLon (Fin 2)))))"

definition calculateDistance :: "jsnum \<Rightarrow> jsnum \<Rightarrow> jsnum \<Rightarrow> jsnum \<Rightarrow> jsnum" where
  "calculateDistance lat1 lon1 lat2 lon2 =
     (let R = Fin 6371;
          a = haversine_a lat1 lon1 lat2 lon2;
          c = js_mul (Fin 2) (js_atan2 (js_sqrt a) (js_sqrt (js_sub (Fin 1) a)))
      in js_mul R c)"

text \<open>
  Two parts of the function, named for the proofs: the first summand of \<open>a\<close> as a
  function of \<open>dLat\<close> (line 201), and the result as a function of \<open>a\<close> (lines 206 and
  207).
\<close>

definition sinSqHalf :: "jsnum \<Rightarrow> jsnum" where
  "sinSqHalf d = js_mul (js_sin (js_div d (Fin 2))) (js_sin (js_div d (Fin 2)))"

definition distanceOf :: "jsnum \<Rightarrow> jsnum" where
  "distanceOf a = js_mul (Fin 6371) (js_mul (Fin 2) (js_atan2 (js_sqrt a) (js_sqrt (js_sub (Fin 1) a))))"

section \<open>The feature collection\<close>

text \<open>
  The interfaces \<open>GeoJsonFeature\<close> and \<open>GeoJsonData\<close> (lines 22 to 34).  The declared
  type of \<open>coordinates\<close> is \<open>number[][] | number[][][]\<close>, but the program casts it to
  \<open>number[]\<close> for a point and never checks the shape, so the payload is modelled as
  what it is at run time: an array whose elements are numbers or arrays, to any depth.
  A geometry that is \<open>null\<close> is \<open>None\<close>; a \<open>name\<close> that is absent is \<open>None\<close>.
\<close>

datatype jsval = Num jsnum | Arr "jsval list"

record Geometry =
  type :: string
  coordinates :: "jsval list"

record Properties =
  name :: "string option"

record GeoJsonFeature =
  geometry :: "Geometry option"
  properties :: Properties

record GeoJsonData =
  features :: "GeoJsonFeature list"

text \<open>
  Reading element \<open>i\<close> of a value: \<open>None\<close> is \<open>undefined\<close>, which is what an index
  past the end of an array, or any index of a number, yields.
\<close>

fun elemAt :: "jsval \<Rightarrow> nat \<Rightarrow> jsval option" where
  "elemAt (Arr xs) i = (if i < length xs then Some (xs ! i) else None)"
| "elemAt (Num x) i = None"

text \<open>\<open>typeof v === "number"\<close>, for a value that may be \<open>undefined\<close>.\<close>

fun typeofNumber :: "jsval option \<Rightarrow> bool" where
  "typeofNumber (Some (Num x)) = True"
| "typeofNumber _ = False"

text \<open>
  Truthiness: every array is truthy; a number is falsy when it is zero or NaN.
\<close>

fun truthy :: "jsval \<Rightarrow> bool" where
  "truthy (Arr xs) = True"
| "truthy (Num x) = (x \<noteq> Fin 0 \<and> x \<noteq> NaN)"

text \<open>
  \<open>v.length < 2\<close>: the length of an array; a number has no \<open>length\<close>, and
  \<open>undefined < 2\<close> is false.
\<close>

fun lengthLt2 :: "jsval \<Rightarrow> bool" where
  "lengthLt2 (Arr xs) = (length xs < 2)"
| "lengthLt2 (Num x) = False"

text \<open>The number read from a value once \<open>typeof\<close> has found one.\<close>

fun numberOf :: "jsval option \<Rightarrow> jsnum" where
  "numberOf (Some (Num x)) = x"
| "numberOf _ = NaN"

text \<open>\<open>Array.prototype.flat(1)\<close>: elements that are arrays are spliced in, one level.\<close>

fun flat1 :: "jsval list \<Rightarrow> jsval list" where
  "flat1 [] = []"
| "flat1 (Arr xs # rest) = xs @ flat1 rest"
| "flat1 (Num x # rest) = Num x # flat1 rest"

section \<open>The summary builder\<close>

text \<open>
  \<open>elementCount\<close> is an object created by a literal with the four keys of the
  interface \<open>ElementCount\<close>; it is modelled as an association list in insertion
  order.  The source indexes it with whatever string the geometry carries, so keys
  beyond the four can appear.  A value is a count, or \<open>NonNumber\<close>: what is read under
  a name that every object inherits from \<open>Object.prototype\<close> (a function or an object),
  and the string that adding \<open>1\<close> to such a value gives.
\<close>

datatype propval = Count nat | NonNumber

type_synonym ElementCount = "(string \<times> propval) list"

definition objectPrototypeNames :: "string list" where
  "objectPrototypeNames =
     [''constructor'', ''hasOwnProperty'', ''isPrototypeOf'', ''propertyIsEnumerable'',
      ''toLocaleString'', ''toString'', ''valueOf'', ''__proto__'',
      ''__defineGetter__'', ''__defineSetter__'', ''__lookupGetter__'', ''__lookupSetter__'']"

text \<open>\<open>elementCount[type]\<close>, read: an own property first, then the prototype.\<close>

definition getProp :: "ElementCount \<Rightarrow> string \<Rightarrow> propval option" where
  "getProp ec k =
     (case map_of ec k of
        Some v \<Rightarrow> Some v
      | None \<Rightarrow> if k \<in> set objectPrototypeNames then Some NonNumber else None)"

text \<open>
  \<open>(v || 0) + 1\<close>: \<open>undefined\<close> and \<open>0\<close> are falsy and give \<open>1\<close>; a value that is not a
  number is truthy and \<open>+\<close> concatenates.
\<close>

fun orZeroPlus1 :: "propval option \<Rightarrow> propval" where
  "orZeroPlus1 None = Count 1"
| "orZeroPlus1 (Some (Count n)) = Count (n + 1)"
| "orZeroPlus1 (Some NonNumber) = NonNumber"

text \<open>
  \<open>elementCount[type] = v\<close>, written: the inherited setter of \<open>__proto__\<close> ignores a
  value that is neither an object nor \<open>null\<close>; any other name becomes or stays an own
  property.
\<close>

definition setProp :: "ElementCount \<Rightarrow> string \<Rightarrow> propval \<Rightarrow> ElementCount" where
  "setProp ec k v = (if k = ''__proto__'' then ec else AList.update k v ec)"

text \<open>The body of the \<open>forEach\<close> callback of \<open>showSummary\<close> (lines 125 to 130).\<close>

definition countFeature :: "ElementCount \<Rightarrow> GeoJsonFeature \<Rightarrow> ElementCount" where
  "countFeature elementCount feature =
     (case geometry feature of
        None \<Rightarrow> elementCount
      | Some g \<Rightarrow>
          if Geometry.type g \<noteq> [] then
            setProp elementCount (Geometry.type g)
              (orZeroPlus1 (getProp elementCount (Geometry.type g)))
          else elementCount)"

definition initialCount :: ElementCount where
  "initialCount =
     [(''Point'', Count 0), (''LineString'', Count 0), (''Polygon'', Count 0),
      (''MultiLineString'', Count 0)]"

definition summarize :: "GeoJsonFeature list \<Rightarrow> ElementCount" where
  "summarize fs = foldl countFeature initialCount fs"

section \<open>The detail builder\<close>

text \<open>
  The interface \<open>DetailItem\<close> (lines 16 to 20); its field \<open>length\<close> holds the text that
  \<open>toFixed(2)\<close> returns.
\<close>

record DetailItem =
  type :: string
  length' :: string
  name :: string

fun natToString :: "nat \<Rightarrow> string" where
  "natToString n =
     (if n < 10 then [''0123456789'' ! n]
      else natToString (n div 10) @ [''0123456789'' ! (n mod 10)])"

declare natToString.simps [simp del]

text \<open>
  \<open>Number.prototype.toFixed(2)\<close>: the sign, then the integer nearest to a hundred times
  the magnitude (the larger one at a tie) with a point before its last two digits.
  From \<open>10\<^sup>2\<^sup>1\<close> on the built-in changes to exponent notation, whose digits are those of
  the binary64 value; that range, which no sum of distances on the sphere comes near,
  is written positionally here.
\<close>

fun toFixed2 :: "jsnum \<Rightarrow> string" where
  "toFixed2 NaN = ''NaN''"
| "toFixed2 PInf = ''Infinity''"
| "toFixed2 NInf = ''-Infinity''"
| "toFixed2 (Fin x) =
     (let n = nat \<lfloor>\<bar>x\<bar> * 100 + 1 / 2\<rfloor>;
          digits = natToString (n div 100) @ ''.''
                   @ [''0123456789'' ! (n mod 100 div 10), ''0123456789'' ! (n mod 10)]
      in if x < 0 then ''-'' @ digits else digits)"

text \<open>The condition under which the loop body says \<open>continue\<close> (lines 159 to 168).\<close>

definition skipSegment :: "jsval \<Rightarrow> jsval \<Rightarrow> bool" where
  "skipSegment coord1 coord2 =
     (\<not> truthy coord1 \<or> \<not> truthy coord2
      \<or> lengthLt2 coord1 \<or> lengthLt2 coord2
      \<or> \<not> typeofNumber (elemAt coord1 0) \<or> \<not> typeofNumber (elemAt coord1 1)
      \<or> \<not> typeofNumber (elemAt coord2 0) \<or> \<not> typeofNumber (elemAt coord2 1))"

text \<open>
  The loop of lines 155 to 177, over the consecutive elements \<open>coordinates[i]\<close> and
  \<open>coordinates[i + 1]\<close> for \<open>i\<close> from \<open>0\<close> to \<open>coordinates.length - 2\<close>, with the running
  value of the local \<open>length\<close> as second argument.
\<close>

fun lengthLoop :: "jsval list \<Rightarrow> jsnum \<Rightarrow> jsnum" where
  "lengthLoop (coord1 # coord2 # rest) len =
     lengthLoop (coord2 # rest)
       (if skipSegment coord1 coord2 then len
        else js_add len
               (calculateDistance
                  (numberOf (elemAt coord1 1)) (numberOf (elemAt coord1 0))
                  (numberOf (elemAt coord2 1)) (numberOf (elemAt coord2 0))))"
| "lengthLoop [coord1] len = len"
| "lengthLoop [] len = len"

text \<open>\<open>feature.properties.name || "Unnamed"\<close>: an absent and an empty name are falsy.\<close>

definition nameOrUnnamed :: "string option \<Rightarrow> string" where
  "nameOrUnnamed n = (case n of None \<Rightarrow> ''Unnamed'' | Some s \<Rightarrow> if s = [] then ''Unnamed'' else s)"

text \<open>
  The local \<open>coordinates\<close> of lines 148 to 151, for a geometry whose kind is one of
  the two line kinds.
\<close>

definition lineCoordinates :: "Geometry \<Rightarrow> jsval list" where
  "lineCoordinates g =
     (if Geometry.type g = ''LineString'' then coordinates g else flat1 (coordinates g))"

text \<open>
  The \<open>forEach\<close> callback of \<open>showDetails\<close> (lines 141 to 185): the item it pushes for a
  feature, \<open>None\<close> when it returns without pushing.  An array is truthy, so the test
  \<open>!coordinates\<close> never holds.
\<close>

definition featureDetail :: "GeoJsonFeature \<Rightarrow> DetailItem option" where
  "featureDetail feature =
     (case geometry feature of
        None \<Rightarrow> None
      | Some g \<Rightarrow>
          if Geometry.type g = [] then None
          else if Geometry.type g = ''LineString'' \<or> Geometry.type g = ''MultiLineString'' then
            (let coords = lineCoordinates g
             in if length coords < 2 then None
                else Some \<lparr>DetailItem.type = Geometry.type g,
                            length' = toFixed2 (lengthLoop coords (Fin 0)),
                            name = nameOrUnnamed (Properties.name (properties feature))\<rparr>)
          else None)"

definition pushDetail :: "DetailItem list \<Rightarrow> GeoJsonFeature \<Rightarrow> DetailItem list" where
  "pushDetail detailedData feature =
     (case featureDetail feature of
        None \<Rightarrow> detailedData
      | Some item \<Rightarrow> detailedData @ [item])"

definition detailedDataOf :: "GeoJsonFeature list \<Rightarrow> DetailItem list" where
  "detailedDataOf fs = foldl pushDetail [] fs"

section \<open>The envelope builder\<close>

text \<open>
  What can interrupt the effect of \<open>MapUpdater\<close>: destructuring a value that is not
  iterable or calling \<open>forEach\<close> on a value that is not an array (a \<open>TypeError\<close> of the
  language), and the error that the map library raises for a position it rejects.
\<close>

datatype error = TypeError | InvalidLatLng

type_synonym LatLng = "jsnum \<times> jsnum"

text \<open>
  Modelled from the spec: \<open>L.LatLngBounds\<close>, the accumulator that \<open>MapUpdater\<close> extends,
  is a class of the map library (Leaflet) and is not among the sources.  Section 3 of
  the specification (Envelope) describes it: a rectangle given by its south-west and
  north-east corners, whose extrema are the minimum and maximum of the latitudes and
  longitudes folded in, and which is valid only once a position has been folded in.
  \<open>None\<close> is the accumulator that \<open>new L.LatLngBounds([])\<close> creates, with no corner;
  \<open>LatLngBounds_extend\<close> and \<open>LatLngBounds_isValid\<close> are its methods \<open>extend\<close> and \<open>isValid\<close>.
  The library builds a position from the pair it receives and refuses, by raising an
  error, a component that is NaN; the specification does not speak of it.
\<close>

type_synonym LatLngBounds = "(LatLng \<times> LatLng) option"

definition LatLngBounds_extend :: "LatLngBounds \<Rightarrow> LatLng \<Rightarrow> error + LatLngBounds" where
  "LatLngBounds_extend b p =
     (if fst p = NaN \<or> snd p = NaN then Inl InvalidLatLng
      else Inr (case b of
                  None \<Rightarrow> Some (p, p)
                | Some (sw, ne) \<Rightarrow>
                    Some ((js_min (fst p) (fst sw), js_min (snd p) (snd sw)),
                          (js_max (fst p) (fst ne), js_max (snd p) (snd ne)))))"

definition LatLngBounds_isValid :: "LatLngBounds \<Rightarrow> bool" where
  "LatLngBounds_isValid b = (b \<noteq> None)"

text \<open>The two locals of the effect: \<open>bounds\<close> and \<open>hasValidBounds\<close> (lines 41 and 42).\<close>

record Envelope =
  bounds :: LatLngBounds
  hasValidBounds :: bool

text \<open>
  The treatment of one coordinate pair, written three times in the source (lines 48 to
  52, 55 to 59 and 64 to 68): \<open>const [lon, lat] = coord\<close>, then the \<open>typeof\<close> test, then
  \<open>bounds.extend([lat, lon])\<close> and \<open>hasValidBounds = true\<close>.
\<close>

fun foldCoord :: "Envelope \<Rightarrow> jsval \<Rightarrow> error + Envelope" where
  "foldCoord env (Num x) = Inl TypeError"
| "foldCoord env (Arr xs) =
     (let lon = elemAt (Arr xs) 0; lat = elemAt (Arr xs) 1
      in if typeofNumber lat \<and> typeofNumber lon then
           (case LatLngBounds_extend (bounds env) (numberOf lat, numberOf lon) of
              Inl e \<Rightarrow> Inl e
            | Inr b \<Rightarrow> Inr \<lparr>bounds = b, hasValidBounds = True\<rparr>)
         else Inr env)"

text \<open>\<open>forEach\<close> with a callback that may raise: the first error ends the iteration.\<close>

fun forEachE :: "('s \<Rightarrow> 'a \<Rightarrow> error + 's) \<Rightarrow> 's \<Rightarrow> 'a list \<Rightarrow> error + 's" where
  "forEachE f s [] = Inr s"
| "forEachE f s (x # xs) = (case f s x of Inl e \<Rightarrow> Inl e | Inr s' \<Rightarrow> forEachE f s' xs)"

fun foldLine :: "Envelope \<Rightarrow> jsval \<Rightarrow> error + Envelope" where
  "foldLine env (Num x) = Inl TypeError"
| "foldLine env (Arr coords) = forEachE foldCoord env coords"

text \<open>
  The callback of lines 44 to 73.  The value of \<open>coordinates\<close> is an array and so
  truthy; a point destructures the array itself.
\<close>

definition foldFeature :: "Envelope \<Rightarrow> GeoJsonFeature \<Rightarrow> error + Envelope" where
  "foldFeature env feature =
     (case geometry feature of
        None \<Rightarrow> Inr env
      | Some g \<Rightarrow>
          if Geometry.type g = ''Point'' then foldCoord env (Arr (coordinates g))
          else if Geometry.type g = ''LineString'' then forEachE foldCoord env (coordinates g)
          else if Geometry.type g = ''MultiLineString'' then forEachE foldLine env (coordinates g)
          else Inr env)"

text \<open>
  The effect of \<open>MapUpdater\<close> (lines 39 to 79).  Its outcome is the argument with which
  \<open>map.fitBounds\<close> is called, \<open>None\<close> when it is not called, or the error that ended it.
\<close>

definition MapUpdater :: "GeoJsonData option \<Rightarrow> error + LatLngBounds option" where
  "MapUpdater geoJson =
     (case geoJson of
        None \<Rightarrow> Inr None
      | Some g \<Rightarrow>
          if length (features g) > 0 then
            (case forEachE foldFeature \<lparr>bounds = None, hasValidBounds = False\<rparr> (features g) of
               Inl e \<Rightarrow> Inl e
             | Inr env \<Rightarrow>
                 if hasValidBounds env \<and> LatLngBounds_isValid (bounds env) then Inr (Some (bounds env))
                 else Inr None)
          else Inr None)"

section \<open>The two views of the application\<close>

text \<open>
  The state of the component \<open>App\<close> that the two handlers read and write (lines 86 to
  88); \<open>null\<close> is \<open>None\<close>.
\<close>

record AppState =
  geoJson :: "GeoJsonData option"
  summary :: "ElementCount option"
  details :: "DetailItem list option"

definition showSummary :: "AppState \<Rightarrow> AppState" where
  "showSummary st =
     (case geoJson st of
        None \<Rightarrow> st
      | Some g \<Rightarrow> st\<lparr>summary := Some (summarize (features g)), details := None\<rparr>)"

definition showDetails :: "AppState \<Rightarrow> AppState" where
  "showDetails st =
     (case geoJson st of
        None \<Rightarrow> st
      | Some g \<Rightarrow> st\<lparr>details := Some (detailedDataOf (features g)), summary := None\<rparr>)"

section \<open>Reference notions\<close>

text \<open>
  A coordinate pair as the two builders accept it: an array whose first two elements
  are numbers.
\<close>

fun numberPair :: "jsval \<Rightarrow> bool" where
  "numberPair (Arr (Num lon # Num lat # rest)) = True"
| "numberPair _ = False"

text \<open>The positions \<open>[lat, lon]\<close> of the number pairs among some values, in order.\<close>

fun positions :: "jsval list \<Rightarrow> LatLng list" where
  "positions [] = []"
| "positions (Arr (Num lon # Num lat # rest) # cs) = (lat, lon) # positions cs"
| "positions (c # cs) = positions cs"

text \<open>The positions that the envelope builder reaches in a feature, and in a collection.\<close>

fun linePositions :: "jsval \<Rightarrow> LatLng list" where
  "linePositions (Arr coords) = positions coords"
| "linePositions (Num x) = []"

definition featurePositions :: "GeoJsonFeature \<Rightarrow> LatLng list" where
  "featurePositions feature =
     (case geometry feature of
        None \<Rightarrow> []
      | Some g \<Rightarrow>
          if Geometry.type g = ''Point'' then positions [Arr (coordinates g)]
          else if Geometry.type g = ''LineString'' then positions (coordinates g)
          else if Geometry.type g = ''MultiLineString'' then concat (map linePositions (coordinates g))
          else [])"

definition collectionPositions :: "GeoJsonFeature list \<Rightarrow> LatLng list" where
  "collectionPositions fs = concat (map featurePositions fs)"

text \<open>
  A collection in the shape that the envelope builder takes for granted: the
  coordinates of a LineString are arrays, those of a MultiLineString are arrays of
  arrays.  A position is free of NaN when neither of its components is NaN.
\<close>

fun isArr :: "jsval \<Rightarrow> bool" where
  "isArr (Arr xs) = True"
| "isArr (Num x) = False"

fun lineOfArrays :: "jsval \<Rightarrow> bool" where
  "lineOfArrays (Arr coords) = list_all isArr coords"
| "lineOfArrays (Num x) = False"

definition wellShaped :: "GeoJsonFeature \<Rightarrow> bool" where
  "wellShaped feature =
     (case geometry feature of
        None \<Rightarrow> True
      | Some g \<Rightarrow>
          if Geometry.type g = ''LineString'' then list_all isArr (coordinates g)
          else if Geometry.type g = ''MultiLineString'' then list_all lineOfArrays (coordinates g)
          else True)"

definition noNaN :: "LatLng \<Rightarrow> bool" where
  "noNaN p = (fst p \<noteq> NaN \<and> snd p \<noteq> NaN)"

text \<open>The number of features whose geometry is present and carries a given kind.\<close>

definition hasKind :: "string \<Rightarrow> GeoJsonFeature \<Rightarrow> bool" where
  "hasKind k feature = (case geometry feature of None \<Rightarrow> False | Some g \<Rightarrow> Geometry.type g = k)"

definition kindCount :: "string \<Rightarrow> GeoJsonFeature list \<Rightarrow> nat" where
  "kindCount k fs = length (filter (hasKind k) fs)"

definition recognizedKinds :: "string list" where
  "recognizedKinds = [''Point'', ''LineString'', ''Polygon'', ''MultiLineString'']"

definition recognizedCount :: "GeoJsonFeature list \<Rightarrow> nat" where
  "recognizedCount fs = length (filter (\<lambda>f. list_ex (\<lambda>k. hasKind k f) recognizedKinds) fs)"

text \<open>
  The features that get a count under a key of their own: the geometry is present and
  its kind is not empty and not a name that every object inherits.
\<close>

definition ownKind :: "GeoJsonFeature \<Rightarrow> bool" where
  "ownKind feature =
     (case geometry feature of
        None \<Rightarrow> False
      | Some g \<Rightarrow> Geometry.type g \<noteq> [] \<and> Geometry.type g \<notin> set objectPrototypeNames)"

definition ownKindCount :: "GeoJsonFeature list \<Rightarrow> nat" where
  "ownKindCount fs = length (filter ownKind fs)"

text \<open>The sum of the counts held in a summary.\<close>

fun countOf :: "propval \<Rightarrow> nat" where
  "countOf (Count n) = n"
| "countOf NonNumber = 0"

definition summaryTotal :: "ElementCount \<Rightarrow> nat" where
  "summaryTotal ec = sum_list (map (\<lambda>kv. countOf (snd kv)) ec)"

text \<open>
  The coordinate pair \<open>[lon, lat]\<close> of a position, the distances between the
  consecutive positions of a path, and their sum from left to right.
\<close>

definition pairVal :: "LatLng \<Rightarrow> jsval" where
  "pairVal p = Arr [Num (snd p), Num (fst p)]"

definition segmentDistances :: "LatLng list \<Rightarrow> jsnum list" where
  "segmentDistances ps =
     map (\<lambda>pq. calculateDistance (fst (fst pq)) (snd (fst pq)) (fst (snd pq)) (snd (snd pq)))
       (zip ps (tl ps))"

definition pathLength :: "LatLng list \<Rightarrow> jsnum" where
  "pathLength ps = foldl js_add (Fin 0) (segmentDistances ps)"

text \<open>A feature whose geometry is present and of one of the two line kinds.\<close>

definition lineShaped :: "GeoJsonFeature \<Rightarrow> bool" where
  "lineShaped feature = (hasKind ''LineString'' feature \<or> hasKind ''MultiLineString'' feature)"

section \<open>Properties of the rounding\<close>

lemma pow2_pos [simp]: "0 < pow2 k"
  by (simp add: pow2_def)

lemma pow2_nonneg' [simp]: "0 \<le> pow2 k"
  by (simp add: pow2_def)

lemma pow2_not_le0 [simp]: "\<not> pow2 k \<le> 0"
  using pow2_pos [of k] by (simp only: not_le)

lemma pow2_ne0 [simp]: "pow2 k \<noteq> 0"
  by (simp add: pow2_def)

lemma pow2_add: "pow2 (j + k) = pow2 j * pow2 k"
  by (simp add: pow2_def powr_add)

lemma pow2_diff: "pow2 (j - k) = pow2 j / pow2 k"
  by (simp add: pow2_def powr_diff)

lemma pow2_le_iff [simp]: "pow2 j \<le> pow2 k \<longleftrightarrow> j \<le> k"
  by (simp add: pow2_def)

lemma pow2_less_iff [simp]: "pow2 j < pow2 k \<longleftrightarrow> j < k"
  by (simp add: pow2_def)

lemma pow2_0 [simp]: "pow2 0 = 1"
  by (simp add: pow2_def)

lemma pow2_nonneg: "0 \<le> k \<Longrightarrow> pow2 k = of_int (2 ^ nat k)"
  by (simp add: pow2_def powr_real_of_int)

lemma pow2_Suc: "pow2 (k + 1) = 2 * pow2 k"
  using pow2_add [of k 1] by (simp add: pow2_def)

subsection \<open>rne\<close>

lemma rne_of_int [simp]: "rne (of_int n) = n"
  by (simp add: rne_def)

lemma rne_0 [simp]: "rne 0 = 0"
  using rne_of_int [of 0] by simp

lemma rne_floor: "\<lfloor>q\<rfloor> \<le> rne q" "rne q \<le> \<lfloor>q\<rfloor> + 1"
  by (simp_all add: rne_def)

lemma rne_ge: "of_int n \<le> q \<Longrightarrow> n \<le> rne q"
  using rne_floor(1) [of q] by (simp add: le_floor_iff [symmetric])

lemma rne_le:
  assumes "q \<le> of_int n" shows "rne q \<le> n"
proof (cases "q = of_int n")
  case True
  then show ?thesis by simp
next
  case False
  with assms have "q < of_int n" by simp
  then have "\<lfloor>q\<rfloor> < n" by (simp add: floor_less_iff)
  with rne_floor(2) [of q] show ?thesis by simp
qed

lemma rne_mono:
  assumes "q \<le> r" shows "rne q \<le> rne r"
proof (cases "\<lfloor>q\<rfloor> = \<lfloor>r\<rfloor>")
  case True
  with assms show ?thesis by (auto simp add: rne_def)
next
  case False
  with assms have "\<lfloor>q\<rfloor> < \<lfloor>r\<rfloor>" using floor_mono [OF assms] by simp
  with rne_floor(2) [of q] rne_floor(1) [of r] show ?thesis by simp
qed

lemma rne_minus: "rne (- q) = - rne q"
proof (cases "q = of_int \<lfloor>q\<rfloor>")
  case True
  then obtain n where "q = of_int n" by blast
  then have "- q = of_int (- n)" by simp
  with \<open>q = of_int n\<close> show ?thesis by (simp only: rne_of_int)
next
  case False
  define f where "f = \<lfloor>q\<rfloor>"
  have lo: "of_int f < q" using False of_int_floor_le [of q] unfolding f_def by linarith
  have hi: "q < of_int f + 1" by (simp add: f_def)
  have fl: "\<lfloor>- q\<rfloor> = - f - 1"
    using lo hi by (intro floor_unique) simp_all
  show ?thesis
    unfolding rne_def fl f_def [symmetric] using lo hi by auto
qed

lemma rne_small: "\<bar>q\<bar> \<le> 1 / 2 \<Longrightarrow> rne q = 0"
proof -
  assume a: "\<bar>q\<bar> \<le> 1 / 2"
  show ?thesis
  proof (cases "0 \<le> q")
    case True
    with a have "\<lfloor>q\<rfloor> = 0" by (intro floor_unique) simp_all
    with a True show ?thesis by (simp add: rne_def)
  next
    case False
    with a have "\<lfloor>q\<rfloor> = - 1" by (intro floor_unique) simp_all
    with a False show ?thesis by (auto simp add: rne_def)
  qed
qed

subsection \<open>expo\<close>

lemma expo_minus [simp]: "expo (- x) = expo x"
  by (simp add: expo_def)

lemma expo_ge: "- 1022 \<le> expo x"
  by (simp add: expo_def)

lemma floor_log_bounds:
  assumes "x \<noteq> 0"
  shows "pow2 \<lfloor>log 2 \<bar>x\<bar>\<rfloor> \<le> \<bar>x\<bar>" "\<bar>x\<bar> < pow2 (\<lfloor>log 2 \<bar>x\<bar>\<rfloor> + 1)"
  using assms floor_log_eq_powr_iff [of "\<bar>x\<bar>" 2 "\<lfloor>log 2 \<bar>x\<bar>\<rfloor>"]
  by (simp_all add: pow2_def)

lemma abs_less_pow2_expo: "\<bar>x\<bar> < pow2 (expo x + 1)"
proof (cases "x = 0")
  case True
  then show ?thesis by simp
next
  case False
  have "\<lfloor>log 2 \<bar>x\<bar>\<rfloor> + 1 \<le> expo x + 1" by (simp add: expo_def)
  then have "pow2 (\<lfloor>log 2 \<bar>x\<bar>\<rfloor> + 1) \<le> pow2 (expo x + 1)" by (simp only: pow2_le_iff)
  with floor_log_bounds(2) [OF False] show ?thesis by (rule less_le_trans)
qed

lemma expo_le:
  assumes "x \<noteq> 0" "\<bar>x\<bar> < pow2 (k + 1)" "- 1022 \<le> k"
  shows "expo x \<le> k"
proof -
  from floor_log_bounds(1) [OF assms(1)] assms(2)
  have "pow2 \<lfloor>log 2 \<bar>x\<bar>\<rfloor> < pow2 (k + 1)" by (rule le_less_trans)
  then have "\<lfloor>log 2 \<bar>x\<bar>\<rfloor> \<le> k" by simp
  with assms(3) show ?thesis by (simp add: expo_def)
qed

lemma pow2_le_abs_nonzero: "pow2 k \<le> \<bar>x\<bar> \<Longrightarrow> x \<noteq> 0"
  by auto

lemma expo_ge_pow2:
  assumes "pow2 k \<le> \<bar>x\<bar>"
  shows "k \<le> expo x"
proof -
  have nz: "x \<noteq> 0" using assms by (rule pow2_le_abs_nonzero)
  from assms floor_log_bounds(2) [OF nz]
  have "pow2 k < pow2 (\<lfloor>log 2 \<bar>x\<bar>\<rfloor> + 1)" by (rule le_less_trans)
  then have "k \<le> \<lfloor>log 2 \<bar>x\<bar>\<rfloor>" by simp
  then show ?thesis by (simp add: expo_def)
qed

lemma pow2_expo_le:
  assumes "pow2 (- 1022) \<le> \<bar>x\<bar>"
  shows "pow2 (expo x) \<le> \<bar>x\<bar>"
proof -
  have nz: "x \<noteq> 0" using assms by (rule pow2_le_abs_nonzero)
  from assms floor_log_bounds(2) [OF nz]
  have "pow2 (- 1022) < pow2 (\<lfloor>log 2 \<bar>x\<bar>\<rfloor> + 1)" by (rule le_less_trans)
  then have "- 1022 \<le> \<lfloor>log 2 \<bar>x\<bar>\<rfloor>" by simp
  then have "expo x = \<lfloor>log 2 \<bar>x\<bar>\<rfloor>" by (simp add: expo_def)
  with floor_log_bounds(1) [OF nz] show ?thesis by simp
qed

lemma expo_eq:
  assumes "pow2 k \<le> \<bar>x\<bar>" "\<bar>x\<bar> < pow2 (k + 1)" "- 1022 \<le> k"
  shows "expo x = k"
  using expo_le [OF pow2_le_abs_nonzero [OF assms(1)] assms(2,3)] expo_ge_pow2 [OF assms(1)]
  by simp

subsection \<open>nearest\<close>

lemma ulp_pos [simp]: "0 < ulp x"
  by (simp add: ulp_def)

lemma ulp_nonneg [simp]: "0 \<le> ulp x"
  by (simp add: ulp_def)

lemma ulp_ne0 [simp]: "ulp x \<noteq> 0"
  by (simp add: ulp_def)

lemma ulp_minus [simp]: "ulp (- x) = ulp x"
  by (simp add: ulp_def)

lemma nearest_0 [simp]: "nearest 0 = 0"
  by (simp add: nearest_def)

lemma nearest_minus: "nearest (- x) = - nearest x"
  by (simp add: nearest_def rne_minus)

lemma nearest_nonneg: "0 \<le> x \<Longrightarrow> 0 \<le> nearest x"
proof -
  assume "0 \<le> x"
  then have "of_int 0 \<le> x / ulp x" by simp
  then have "0 \<le> rne (x / ulp x)" by (rule rne_ge)
  then show ?thesis by (simp add: nearest_def)
qed

text \<open>Rounding does not cross a power of two at or above the least normal number.\<close>

lemma nearest_le_pow2:
  assumes "0 \<le> x" "x \<le> pow2 k" "- 1022 \<le> k"
  shows "nearest x \<le> pow2 k"
proof (cases "x = 0")
  case True
  then show ?thesis by simp
next
  case False
  have "pow2 k < pow2 (k + 1)" by simp
  with assms(2) have "x < pow2 (k + 1)" by (rule le_less_trans)
  with assms(1) have "\<bar>x\<bar> < pow2 (k + 1)" by simp
  then have e: "expo x \<le> k" using False assms(3) by (intro expo_le)
  define n where "n = k - expo x + 52"
  have n0: "0 \<le> n" using e by (simp add: n_def)
  have "pow2 k = pow2 n * ulp x"
    by (simp add: n_def ulp_def pow2_add [symmetric])
  then have pk: "pow2 k = of_int (2 ^ nat n) * ulp x"
    using pow2_nonneg [OF n0] by simp
  have "x / ulp x \<le> of_int (2 ^ nat n)"
    using assms(2) unfolding pk by (simp add: pos_divide_le_eq)
  then have "rne (x / ulp x) \<le> 2 ^ nat n" by (rule rne_le)
  then have "of_int (rne (x / ulp x)) * ulp x \<le> of_int (2 ^ nat n) * ulp x"
    by (intro mult_right_mono) (simp_all add: less_imp_le)
  then show ?thesis unfolding nearest_def pk .
qed

lemma nearest_ge_pow2:
  assumes "pow2 k \<le> x" "- 1022 \<le> k"
  shows "pow2 k \<le> nearest x"
proof -
  have ax: "pow2 k \<le> \<bar>x\<bar>" using assms(1) by simp
  have e: "k \<le> expo x" using ax by (rule expo_ge_pow2)
  have "pow2 (- 1022) \<le> pow2 k" using assms(2) by simp
  from this ax have "pow2 (- 1022) \<le> \<bar>x\<bar>" by (rule order_trans)
  then have "pow2 (expo x) \<le> \<bar>x\<bar>" by (rule pow2_expo_le)
  moreover have "0 < x" using pow2_pos [of k] assms(1) by (rule less_le_trans)
  ultimately have lo: "pow2 (expo x) \<le> x" by simp
  have "pow2 (expo x) = pow2 52 * ulp x"
    by (simp add: ulp_def pow2_add [symmetric])
  then have pe: "pow2 (expo x) = of_int (2 ^ 52) * ulp x"
    using pow2_nonneg [of 52] by simp
  have "of_int (2 ^ 52) \<le> x / ulp x"
    using lo unfolding pe by (simp add: pos_le_divide_eq)
  then have "2 ^ 52 \<le> rne (x / ulp x)" by (rule rne_ge)
  then have "of_int (2 ^ 52) * ulp x \<le> of_int (rne (x / ulp x)) * ulp x"
    by (intro mult_right_mono) (simp_all add: less_imp_le)
  then have "pow2 (expo x) \<le> nearest x" unfolding nearest_def pe .
  moreover have "pow2 k \<le> pow2 (expo x)" using e by simp
  ultimately show ?thesis by (rule order_trans [rotated])
qed

lemma nearest_pow2: "- 1022 \<le> k \<Longrightarrow> nearest (pow2 k) = pow2 k"
  using nearest_le_pow2 [of "pow2 k" k] nearest_ge_pow2 [of k "pow2 k"]
  by (simp add: less_imp_le)

lemma nearest_abs: "\<bar>nearest x\<bar> = nearest \<bar>x\<bar>"
proof (cases "0 \<le> x")
  case True
  then show ?thesis using nearest_nonneg [of x] by simp
next
  case False
  then have "0 \<le> - x" by simp
  from nearest_nonneg [OF this] False show ?thesis by (simp add: nearest_minus)
qed

lemma abs_nearest_le_pow2:
  assumes "\<bar>x\<bar> \<le> pow2 k" "- 1022 \<le> k"
  shows "\<bar>nearest x\<bar> \<le> pow2 k"
  unfolding nearest_abs using assms by (intro nearest_le_pow2) simp_all


lemma pow2_expo_le_normal:
  assumes "x \<noteq> 0" "- 1022 < expo x"
  shows "pow2 (expo x) \<le> \<bar>x\<bar>"
proof -
  from assms(2) have "expo x = \<lfloor>log 2 \<bar>x\<bar>\<rfloor>" by (simp add: expo_def max_def split: if_splits)
  with floor_log_bounds(1) [OF assms(1)] show ?thesis by simp
qed

lemma expo_mono:
  assumes "x \<noteq> 0" "\<bar>x\<bar> \<le> \<bar>y\<bar>"
  shows "expo x \<le> expo y"
proof -
  have "0 < \<bar>x\<bar>" "0 < \<bar>y\<bar>" using assms by auto
  with assms(2) have "log 2 \<bar>x\<bar> \<le> log 2 \<bar>y\<bar>" by simp
  then have "\<lfloor>log 2 \<bar>x\<bar>\<rfloor> \<le> \<lfloor>log 2 \<bar>y\<bar>\<rfloor>" by (rule floor_mono)
  then show ?thesis by (simp add: expo_def)
qed

lemma nearest_exact:
  assumes "x / ulp x = of_int m"
  shows "nearest x = x"
proof -
  have "nearest x = of_int m * ulp x" by (simp add: nearest_def assms)
  also have "\<dots> = x / ulp x * ulp x" by (simp only: assms)
  also have "\<dots> = x" by simp
  finally show ?thesis .
qed

lemma nearest_mono_pos:
  assumes "0 < x" "x \<le> y"
  shows "nearest x \<le> nearest y"
proof (cases "expo x = expo y")
  case True
  then have u: "ulp x = ulp y" by (simp add: ulp_def)
  have "x / ulp y \<le> y / ulp y" using assms(2) by (simp add: divide_right_mono)
  then have "rne (x / ulp y) \<le> rne (y / ulp y)" by (rule rne_mono)
  then have "of_int (rne (x / ulp y)) * ulp y \<le> of_int (rne (y / ulp y)) * ulp y"
    by (intro mult_right_mono) simp_all
  then show ?thesis by (simp add: nearest_def u)
next
  case False
  have xn: "x \<noteq> 0" and yp: "0 < y" using assms by simp_all
  have "expo x \<le> expo y" using xn assms by (intro expo_mono) simp_all
  with False have lt: "expo x + 1 \<le> expo y" by simp
  have "x \<le> pow2 (expo x + 1)" using abs_less_pow2_expo [of x] assms(1) by simp
  then have a: "nearest x \<le> pow2 (expo x + 1)"
    using assms(1) expo_ge [of x] by (intro nearest_le_pow2) simp_all
  have "- 1022 < expo y" using lt expo_ge [of x] by simp
  then have "pow2 (expo y) \<le> \<bar>y\<bar>" using yp by (intro pow2_expo_le_normal) simp_all
  then have "pow2 (expo y) \<le> y" using yp by simp
  then have b: "pow2 (expo y) \<le> nearest y" using expo_ge [of y] by (intro nearest_ge_pow2)
  have "pow2 (expo x + 1) \<le> pow2 (expo y)" using lt by simp
  with a b show ?thesis by linarith
qed

lemma nearest_mono:
  assumes "x \<le> y"
  shows "nearest x \<le> nearest y"
proof -
  consider (pos) "0 < x" | (neg) "y < 0" | (mid) "x \<le> 0" "0 \<le> y" by linarith
  then show ?thesis
  proof cases
    case pos
    then show ?thesis using assms by (rule nearest_mono_pos)
  next
    case neg
    then have "0 < - y" "- y \<le> - x" using assms by simp_all
    from nearest_mono_pos [OF this] show ?thesis by (simp add: nearest_minus)
  next
    case mid
    from mid(1) have "0 \<le> - x" by simp
    from nearest_nonneg [OF this] have "nearest x \<le> 0" by (simp add: nearest_minus)
    with nearest_nonneg [OF mid(2)] show ?thesis by simp
  qed
qed

lemma nearest_idem_pos:
  assumes "0 \<le> x"
  shows "nearest (nearest x) = nearest x"
proof -
  define y where "y = nearest x"
  define e where "e = expo x"
  have y0: "0 \<le> y" unfolding y_def using assms by (rule nearest_nonneg)
  have "x \<le> pow2 (e + 1)" using abs_less_pow2_expo [of x] assms by (simp add: e_def)
  then have yle: "y \<le> pow2 (e + 1)"
    unfolding y_def using assms expo_ge [of x] by (intro nearest_le_pow2) (simp_all add: e_def)
  consider (zero) "y = 0" | (top) "y = pow2 (e + 1)" | (inner) "0 < y" "y < pow2 (e + 1)"
    using y0 yle by linarith
  then have "nearest y = y"
  proof cases
    case zero
    then show ?thesis by simp
  next
    case top
    show ?thesis unfolding top using expo_ge [of x] by (intro nearest_pow2) (simp add: e_def)
  next
    case inner
    have xn: "x \<noteq> 0" using inner(1) by (auto simp add: y_def)
    have up: "expo y \<le> e"
      using inner expo_ge [of x] by (intro expo_le) (simp_all add: e_def)
    have lo: "e \<le> expo y"
    proof (cases "- 1022 < e")
      case False
      then show ?thesis using expo_ge [of y] by simp
    next
      case True
      then have "pow2 e \<le> \<bar>x\<bar>" unfolding e_def using xn by (intro pow2_expo_le_normal)
      then have "pow2 e \<le> x" using assms by simp
      then have "pow2 e \<le> y" unfolding y_def using True by (intro nearest_ge_pow2) simp_all
      then have "pow2 e \<le> \<bar>y\<bar>" by simp
      then show ?thesis by (rule expo_ge_pow2)
    qed
    from up lo have "ulp y = ulp x" by (simp add: ulp_def e_def)
    then have "y / ulp y = of_int (rne (x / ulp x))" by (simp add: y_def nearest_def)
    then show ?thesis by (rule nearest_exact)
  qed
  then show ?thesis by (simp add: y_def)
qed

lemma nearest_idem: "nearest (nearest x) = nearest x"
proof (cases "0 \<le> x")
  case True
  then show ?thesis by (rule nearest_idem_pos)
next
  case False
  then have "0 \<le> - x" by simp
  from nearest_idem_pos [OF this] show ?thesis by (simp add: nearest_minus)
qed

subsection \<open>round64\<close>

lemma round64_not_NaN [simp]: "round64 x \<noteq> NaN"
proof -
  have "pow2 1024 \<le> \<bar>nearest x\<bar> \<Longrightarrow> x \<noteq> 0" by auto
  then show ?thesis by (auto simp add: round64_def inf_of_sign_def)
qed

lemma round64_0 [simp]: "round64 0 = Fin 0"
  by (simp add: round64_def)

lemma round64_minus: "round64 (- x) = js_neg (round64 x)"
proof -
  have "pow2 1024 \<le> \<bar>nearest x\<bar> \<Longrightarrow> x \<noteq> 0" by auto
  then show ?thesis by (auto simp add: round64_def nearest_minus inf_of_sign_def)
qed

lemma round64_FinD: "round64 x = Fin y \<Longrightarrow> y = nearest x \<and> \<bar>y\<bar> < pow2 1024"
  by (auto simp add: round64_def inf_of_sign_def split: if_splits)

lemma round64_bounded:
  assumes "\<bar>x\<bar> \<le> pow2 k" "- 1022 \<le> k" "k \<le> 1023"
  shows "round64 x = Fin (nearest x)" "\<bar>nearest x\<bar> \<le> pow2 k"
proof -
  show b: "\<bar>nearest x\<bar> \<le> pow2 k" using assms(1,2) by (rule abs_nearest_le_pow2)
  have "pow2 k < pow2 1024" using assms(3) by simp
  with b have "\<bar>nearest x\<bar> < pow2 1024" by (rule le_less_trans)
  then show "round64 x = Fin (nearest x)" by (simp add: round64_def)
qed

lemma round64_overflow:
  assumes "pow2 1024 \<le> x"
  shows "round64 x = PInf"
proof -
  have "pow2 1024 \<le> nearest x" using assms by (intro nearest_ge_pow2) simp_all
  moreover have "0 < x" using pow2_pos [of 1024] assms by (rule less_le_trans)
  ultimately show ?thesis by (simp add: round64_def inf_of_sign_def)
qed

lemma round64_underflow:
  assumes "\<bar>x\<bar> \<le> pow2 (- 1075)"
  shows "round64 x = Fin 0"
proof (cases "x = 0")
  case True
  then show ?thesis by simp
next
  case False
  have "pow2 (- 1075) < pow2 (- 1022 + 1)" by simp
  with assms have "\<bar>x\<bar> < pow2 (- 1022 + 1)" by (rule le_less_trans)
  then have "expo x \<le> - 1022" using False by (intro expo_le) simp_all
  with expo_ge [of x] have e: "expo x = - 1022" by simp
  have u: "ulp x = pow2 (- 1074)" by (simp add: ulp_def e)
  have "pow2 (- 1075) = pow2 (- 1074) / 2"
    using pow2_Suc [of "- 1075"] by simp
  with assms have "\<bar>x\<bar> \<le> pow2 (- 1074) / 2" by simp
  then have "\<bar>x / ulp x\<bar> \<le> 1 / 2" by (simp add: u field_simps)
  then have "rne (x / ulp x) = 0" by (rule rne_small)
  then have "nearest x = 0" by (simp add: nearest_def)
  then show ?thesis by (simp add: round64_def)
qed

lemma round64_idem: "round64 x = Fin y \<Longrightarrow> round64 y = Fin y"
proof -
  assume "round64 x = Fin y"
  then have y: "y = nearest x" "\<bar>y\<bar> < pow2 1024" using round64_FinD by blast+
  then have "nearest y = y" by (simp add: nearest_idem)
  with y(2) show ?thesis by (simp add: round64_def)
qed

lemma round64_pow2: "- 1022 \<le> k \<Longrightarrow> k \<le> 1023 \<Longrightarrow> round64 (pow2 k) = Fin (pow2 k)"
  using round64_bounded(1) [of "pow2 k" k] by (simp add: nearest_pow2)

lemma round64_1 [simp]: "round64 1 = Fin 1"
  using round64_pow2 [of 0] by simp

lemma round64_boundedE:
  assumes "\<bar>x\<bar> \<le> pow2 k" "- 1022 \<le> k" "k \<le> 1023"
  obtains y where "round64 x = Fin y" "\<bar>y\<bar> \<le> pow2 k"
  using round64_bounded [OF assms] by blast

lemma pow2_neg: "0 \<le> k \<Longrightarrow> pow2 (- k) = 1 / 2 ^ nat k"
  using pow2_diff [of 0 k] pow2_nonneg [of k] by simp

section \<open>Properties of the operators\<close>

lemma js_neg_neg [simp]: "js_neg (js_neg x) = x"
  by (cases x) simp_all

lemma inf_of_sign_minus: "inf_of_sign (- s) = js_neg (inf_of_sign s)"
  by (simp add: inf_of_sign_def)

lemma js_add_NaN_right [simp]: "js_add x NaN = NaN"
  by (cases x) simp_all

lemma js_mul_NaN_right [simp]: "js_mul x NaN = NaN"
  by (cases x) simp_all

lemma js_mul_commute: "js_mul x y = js_mul y x"
  by (cases x; cases y) (simp_all add: mult.commute)

lemma js_mul_neg_left: "js_mul (js_neg x) y = js_neg (js_mul x y)"
proof -
  have "\<And>a b. round64 (- (a * b)) = js_neg (round64 (a * b))" by (rule round64_minus)
  then show ?thesis
    by (cases x; cases y) (simp_all add: inf_of_sign_minus)
qed

lemma js_mul_neg_right: "js_mul x (js_neg y) = js_neg (js_mul x y)"
  using js_mul_neg_left [of y x] by (simp only: js_mul_commute [of x])

lemma js_div_neg_left: "js_div (js_neg x) y = js_neg (js_div x y)"
proof -
  have "\<And>a b. round64 (- (a / b)) = js_neg (round64 (a / b))" by (rule round64_minus)
  then show ?thesis
    by (cases x; cases y) (simp_all add: inf_of_sign_minus)
qed

lemma js_sub_swap: "js_sub y x = js_neg (js_sub x y)"
proof (cases x; cases y)
  fix a b
  assume xy: "x = Fin a" "y = Fin b"
  show ?thesis
    unfolding xy js_sub_def js_neg.simps js_add.simps
    using round64_minus [of "a + - b"] by simp
qed (simp_all add: js_sub_def)

lemma js_sin_neg: "js_sin (js_neg x) = js_neg (js_sin x)"
  by (cases x) (simp_all add: round64_minus)

lemma toRad_neg: "toRad (js_neg x) = js_neg (toRad x)"
  by (simp add: toRad_def js_mul_neg_left js_div_neg_left)

lemma haversine_a_swap: "haversine_a lat2 lon2 lat1 lon1 = haversine_a lat1 lon1 lat2 lon2"
proof -
  have h: "\<And>x y. js_sin (js_div (toRad (js_sub y x)) (Fin 2))
                  = js_neg (js_sin (js_div (toRad (js_sub x y)) (Fin 2)))"
  proof -
    fix x y
    show "js_sin (js_div (toRad (js_sub y x)) (Fin 2))
            = js_neg (js_sin (js_div (toRad (js_sub x y)) (Fin 2)))"
      by (simp only: js_sub_swap [of y x] toRad_neg js_div_neg_left js_sin_neg)
  qed
  have sq: "\<And>c t. js_mul (js_mul c (js_neg t)) (js_neg t) = js_mul (js_mul c t) t"
    by (simp add: js_mul_neg_left js_mul_neg_right)
  have sq0: "\<And>t. js_mul (js_neg t) (js_neg t) = js_mul t t"
    by (simp add: js_mul_neg_left js_mul_neg_right)
  show ?thesis
    unfolding haversine_a_def Let_def h [of lat2 lat1] h [of lon2 lon1] sq sq0
      js_mul_commute [of "js_cos (toRad lat2)" "js_cos (toRad lat1)"] ..
qed

lemma js_add_zero_round64:
  "js_add (Fin 0) (round64 x) = round64 x" "js_add (round64 x) (Fin 0) = round64 x"
proof -
  show "js_add (Fin 0) (round64 x) = round64 x"
  proof (cases "round64 x")
    case (Fin y)
    then show ?thesis using round64_idem [OF Fin] by simp
  qed simp_all
  show "js_add (round64 x) (Fin 0) = round64 x"
  proof (cases "round64 x")
    case (Fin y)
    then show ?thesis using round64_idem [OF Fin] by simp
  qed simp_all
qed

lemma js_add_zero_inf_of_sign:
  "js_add (Fin 0) (inf_of_sign x) = inf_of_sign x" "js_add (inf_of_sign x) (Fin 0) = inf_of_sign x"
  by (simp_all add: inf_of_sign_def)

lemma js_add_zero_mul:
  "js_add (Fin 0) (js_mul a b) = js_mul a b" "js_add (js_mul a b) (Fin 0) = js_mul a b"
  by (cases a; cases b; simp add: js_add_zero_round64 js_add_zero_inf_of_sign)+

lemma js_add_zero_calculateDistance:
  "js_add (Fin 0) (calculateDistance lat1 lon1 lat2 lon2) = calculateDistance lat1 lon1 lat2 lon2"
  "js_add (calculateDistance lat1 lon1 lat2 lon2) (Fin 0) = calculateDistance lat1 lon1 lat2 lon2"
  by (simp_all add: calculateDistance_def Let_def js_add_zero_mul)

section \<open>The distance engine: a point and itself, and symmetry\<close>

lemma js_cos_unit: "\<exists>c. js_cos (Fin x) = Fin c \<and> \<bar>c\<bar> \<le> 1"
  using round64_bounded [of "cos x" 0] by simp

lemma js_mul_unit:
  assumes "\<bar>a\<bar> \<le> 1" "\<bar>b\<bar> \<le> 1"
  shows "\<exists>c. js_mul (Fin a) (Fin b) = Fin c \<and> \<bar>c\<bar> \<le> 1"
proof -
  have "\<bar>a * b\<bar> \<le> 1 * 1" unfolding abs_mult using assms by (intro mult_mono) simp_all
  then show ?thesis using round64_bounded [of "a * b" 0] by simp
qed

lemma js_mul_PI_cases:
  "(\<exists>y. js_mul (Fin lat) MathPI = Fin y) \<or> js_mul (Fin lat) MathPI = PInf
     \<or> js_mul (Fin lat) MathPI = NInf"
  by (cases "js_mul (Fin lat) MathPI") (simp_all add: MathPI_def)

lemma toRad_finite:
  assumes "js_mul (Fin lat) MathPI = Fin y"
  shows "\<exists>z. toRad (Fin lat) = Fin z"
proof -
  from assms have "round64 (lat * (884279719003555 / 281474976710656)) = Fin y"
    by (simp add: MathPI_def)
  then have "\<bar>y\<bar> < pow2 1024" using round64_FinD by blast
  then have "\<bar>y / 180\<bar> \<le> pow2 1024 / 2" by simp
  also have "pow2 1024 / 2 = pow2 1023" using pow2_Suc [of 1023] by simp
  finally have "round64 (y / 180) = Fin (nearest (y / 180))"
    by (intro round64_bounded(1) [of _ 1023]) simp_all
  then show ?thesis by (simp add: toRad_def assms)
qed

lemma toRad_infinite:
  assumes "js_mul (Fin lat) MathPI = PInf \<or> js_mul (Fin lat) MathPI = NInf"
  shows "js_cos (toRad (Fin lat)) = NaN"
  using assms by (auto simp add: toRad_def)

lemma calculateDistance_of_a0:
  assumes "haversine_a lat1 lon1 lat2 lon2 = Fin 0"
  shows "calculateDistance lat1 lon1 lat2 lon2 = Fin 0"
  by (simp add: calculateDistance_def assms js_sub_def atan2_def)

lemma calculateDistance_of_NaN:
  assumes "haversine_a lat1 lon1 lat2 lon2 = NaN"
  shows "calculateDistance lat1 lon1 lat2 lon2 = NaN"
  by (simp add: calculateDistance_def assms js_sub_def)

lemma haversine_a_same:
  "haversine_a (Fin lat) (Fin lon) (Fin lat) (Fin lon)
     = js_add (Fin 0)
         (js_mul (js_mul (js_mul (js_cos (toRad (Fin lat))) (js_cos (toRad (Fin lat)))) (Fin 0))
            (Fin 0))"
  by (simp add: haversine_a_def js_sub_def toRad_def MathPI_def Let_def)

lemma calculateDistance_same:
  "calculateDistance (Fin lat) (Fin lon) (Fin lat) (Fin lon)
     = (if \<exists>y. js_mul (Fin lat) MathPI = Fin y then Fin 0 else NaN)"
proof (cases "\<exists>y. js_mul (Fin lat) MathPI = Fin y")
  case True
  then obtain y where "js_mul (Fin lat) MathPI = Fin y" by blast
  from toRad_finite [OF this] obtain z where z: "toRad (Fin lat) = Fin z" by blast
  from js_cos_unit [of z] obtain c where c: "js_cos (Fin z) = Fin c" "\<bar>c\<bar> \<le> 1" by blast
  from js_mul_unit [OF c(2) c(2)] obtain d where d: "js_mul (Fin c) (Fin c) = Fin d" by blast
  have "haversine_a (Fin lat) (Fin lon) (Fin lat) (Fin lon) = Fin 0"
    unfolding haversine_a_same z c(1) d by simp
  then have "calculateDistance (Fin lat) (Fin lon) (Fin lat) (Fin lon) = Fin 0"
    by (rule calculateDistance_of_a0)
  with True show ?thesis by simp
next
  case False
  with js_mul_PI_cases [of lat]
  have "js_mul (Fin lat) MathPI = PInf \<or> js_mul (Fin lat) MathPI = NInf" by blast
  then have "js_cos (toRad (Fin lat)) = NaN" by (rule toRad_infinite)
  then have "haversine_a (Fin lat) (Fin lon) (Fin lat) (Fin lon) = NaN"
    unfolding haversine_a_same by simp
  then have "calculateDistance (Fin lat) (Fin lon) (Fin lat) (Fin lon) = NaN"
    by (rule calculateDistance_of_NaN)
  with False show ?thesis by simp
qed

lemma js_mul_PI_finite:
  assumes "\<bar>lat\<bar> \<le> pow2 1021"
  shows "\<exists>y. js_mul (Fin lat) MathPI = Fin y"
proof -
  have "\<bar>lat * (884279719003555 / 281474976710656)\<bar> \<le> pow2 1021 * 4"
    unfolding abs_mult using assms by (intro mult_mono) simp_all
  also have "pow2 1021 * 4 = pow2 1023"
    using pow2_Suc [of 1021] pow2_Suc [of 1022] by simp
  finally have "round64 (lat * (884279719003555 / 281474976710656))
      = Fin (nearest (lat * (884279719003555 / 281474976710656)))"
    by (intro round64_bounded(1) [of _ 1023]) simp_all
  then show ?thesis by (simp add: MathPI_def)
qed

lemma js_mul_PI_overflow: "js_mul (Fin (2 ^ 1023)) MathPI = PInf"
proof -
  have "pow2 1024 = 2 * pow2 1023" using pow2_Suc [of 1023] by simp
  also have "pow2 1023 = 2 ^ 1023" using pow2_nonneg [of 1023] by simp
  finally have "pow2 1024 \<le> 2 ^ 1023 * (884279719003555 / 281474976710656)" by simp
  then show ?thesis by (simp add: MathPI_def round64_overflow)
qed

text \<open>
  C4, as amended: for a point with finite coordinates the distance from the point to
  itself is \<open>0\<close> when the product of its latitude and \<open>Math.PI\<close> is finite, and NaN when
  that product overflows; it is \<open>0\<close> for every latitude of magnitude at most \<open>2\<^sup>1\<^sup>0\<^sup>2\<^sup>1\<close>,
  whatever the longitude.  Swapping the two points never changes the distance, for
  all arguments, the infinities and NaN included.
\<close>

theorem calculateDistance_zero_and_symmetric:
  "calculateDistance (Fin lat) (Fin lon) (Fin lat) (Fin lon)
     = (if \<exists>y. js_mul (Fin lat) MathPI = Fin y then Fin 0 else NaN)
   \<and> (\<bar>lat\<bar> \<le> 2 ^ 1021 \<longrightarrow> calculateDistance (Fin lat) (Fin lon) (Fin lat) (Fin lon) = Fin 0)
   \<and> calculateDistance lat1 lon1 lat2 lon2 = calculateDistance lat2 lon2 lat1 lon1"
proof (intro conjI impI)
  show "calculateDistance (Fin lat) (Fin lon) (Fin lat) (Fin lon)
     = (if \<exists>y. js_mul (Fin lat) MathPI = Fin y then Fin 0 else NaN)"
    by (rule calculateDistance_same)
next
  assume "\<bar>lat\<bar> \<le> 2 ^ 1021"
  then have "\<bar>lat\<bar> \<le> pow2 1021" using pow2_nonneg [of 1021] by simp
  then have "\<exists>y. js_mul (Fin lat) MathPI = Fin y" by (rule js_mul_PI_finite)
  then show "calculateDistance (Fin lat) (Fin lon) (Fin lat) (Fin lon) = Fin 0"
    by (simp add: calculateDistance_same)
next
  show "calculateDistance lat1 lon1 lat2 lon2 = calculateDistance lat2 lon2 lat1 lon1"
    unfolding calculateDistance_def haversine_a_swap [of lat1 lon1 lat2 lon2] ..
qed

theorem calculateDistance_zero_and_symmetric_witness:
  "calculateDistance (Fin 12) (Fin 77) (Fin 12) (Fin 77) = Fin 0
   \<and> calculateDistance (Fin 0) PInf NaN (Fin 1) = calculateDistance NaN (Fin 1) (Fin 0) PInf"
proof -
  have "\<bar>12 :: real\<bar> \<le> 2 ^ 1021" by simp
  with calculateDistance_zero_and_symmetric [of 12 77 "Fin 0" PInf NaN "Fin 1"]
  show ?thesis by blast
qed

text \<open>
  The statement that the distance from every point to itself is \<open>0\<close> fails: at the
  latitude \<open>2\<^sup>1\<^sup>0\<^sup>2\<^sup>3\<close>, a finite number, the product with \<open>Math.PI\<close> overflows to
  \<open>Infinity\<close>, its cosine is NaN, and the distance from the point to itself is NaN.
\<close>

theorem calculateDistance_huge_latitude_counterexample:
  "calculateDistance (Fin (2 ^ 1023)) (Fin 0) (Fin (2 ^ 1023)) (Fin 0) = NaN
   \<and> calculateDistance (Fin (2 ^ 1023)) (Fin 0) (Fin (2 ^ 1023)) (Fin 0) \<noteq> Fin 0"
  unfolding calculateDistance_same js_mul_PI_overflow by simp

section \<open>The distance engine: underflow along a meridian\<close>

text \<open>
  From the equator, every latitude of magnitude at most \<open>2\<^sup>-\<^sup>7\<^sup>0\<^sup>0\<close> is at distance \<open>0\<close>:
  the square of the sine of half the difference underflows.
\<close>

lemma calculateDistance_tiny:
  assumes "\<bar>lat2\<bar> \<le> pow2 (- 700)"
  shows "calculateDistance (Fin 0) (Fin lon) (Fin lat2) (Fin lon) = Fin 0"
proof -
  let ?p = "884279719003555 / 281474976710656 :: real"
  from assms obtain u where u: "round64 lat2 = Fin u" "\<bar>u\<bar> \<le> pow2 (- 700)"
    by (rule round64_boundedE [of lat2 "- 700"]) simp_all
  have "\<bar>u * ?p\<bar> \<le> pow2 (- 700) * 4"
    unfolding abs_mult using u(2) by (intro mult_mono) simp_all
  also have "pow2 (- 700) * 4 = pow2 (- 698)"
    using pow2_Suc [of "- 700"] pow2_Suc [of "- 699"] by simp
  finally have "\<bar>u * 884279719003555 / 281474976710656\<bar> \<le> pow2 (- 698)" by simp
  then obtain v where v: "round64 (u * 884279719003555 / 281474976710656) = Fin v"
      "\<bar>v\<bar> \<le> pow2 (- 698)"
    by (rule round64_boundedE [of _ "- 698"]) simp_all
  have "\<bar>v / 180\<bar> \<le> \<bar>v\<bar>" by simp
  with v(2) have "\<bar>v / 180\<bar> \<le> pow2 (- 698)" by (rule order_trans [rotated])
  then obtain w where w: "round64 (v / 180) = Fin w" "\<bar>w\<bar> \<le> pow2 (- 698)"
    by (rule round64_boundedE [of _ "- 698"]) simp_all
  have "\<bar>w / 2\<bar> \<le> \<bar>w\<bar>" by simp
  with w(2) have "\<bar>w / 2\<bar> \<le> pow2 (- 698)" by (rule order_trans [rotated])
  then obtain h where h: "round64 (w / 2) = Fin h" "\<bar>h\<bar> \<le> pow2 (- 698)"
    by (rule round64_boundedE [of _ "- 698"]) simp_all
  have "\<bar>sin h\<bar> \<le> \<bar>h\<bar>" by (rule abs_sin_x_le_abs_x)
  with h(2) have "\<bar>sin h\<bar> \<le> pow2 (- 698)" by (rule order_trans [rotated])
  then obtain s where s: "round64 (sin h) = Fin s" "\<bar>s\<bar> \<le> pow2 (- 698)"
    by (rule round64_boundedE [of _ "- 698"]) simp_all
  have "\<bar>s * s\<bar> \<le> pow2 (- 698) * pow2 (- 698)"
    unfolding abs_mult using s(2) by (intro mult_mono) simp_all
  also have "\<dots> = pow2 (- 1396)" by (simp add: pow2_add [symmetric])
  also have "\<dots> \<le> pow2 (- 1075)" by simp
  finally have ss: "round64 (s * s) = Fin 0" by (rule round64_underflow)
  have first: "js_mul (js_sin (js_div (toRad (js_sub (Fin lat2) (Fin 0))) (Fin 2)))
                 (js_sin (js_div (toRad (js_sub (Fin lat2) (Fin 0))) (Fin 2))) = Fin 0"
    by (simp add: js_sub_def toRad_def MathPI_def u v w h s ss)
  have "pow2 (- 700) \<le> pow2 1021" by simp
  with assms have "\<bar>lat2\<bar> \<le> pow2 1021" by (rule order_trans)
  then have "\<exists>y. js_mul (Fin lat2) MathPI = Fin y" by (rule js_mul_PI_finite)
  then obtain y where "js_mul (Fin lat2) MathPI = Fin y" by blast
  from toRad_finite [OF this] obtain z where z: "toRad (Fin lat2) = Fin z" by blast
  from js_cos_unit [of z] obtain c where c: "js_cos (Fin z) = Fin c" "\<bar>c\<bar> \<le> 1" by blast
  have c0: "js_cos (toRad (Fin 0)) = Fin 1" by (simp add: toRad_def MathPI_def)
  have "\<bar>1 :: real\<bar> \<le> 1" by simp
  from js_mul_unit [OF this c(2)] obtain d where d: "js_mul (Fin 1) (Fin c) = Fin d" by blast
  have zero: "js_sin (js_div (toRad (js_sub (Fin lon) (Fin lon))) (Fin 2)) = Fin 0"
    by (simp add: js_sub_def toRad_def MathPI_def)
  have "haversine_a (Fin 0) (Fin lon) (Fin lat2) (Fin lon) = Fin 0"
    unfolding haversine_a_def Let_def first zero c0 z c(1) d by simp
  then show ?thesis by (rule calculateDistance_of_a0)
qed

text \<open>
  The statement that the distance strictly increases fails: the latitude \<open>2\<^sup>-\<^sup>7\<^sup>0\<^sup>0\<close> is
  strictly farther from the equator than \<open>2\<^sup>-\<^sup>7\<^sup>0\<^sup>1\<close> along the meridian \<open>0\<close>, and both
  are at distance \<open>0\<close>.
\<close>

theorem tiny_latitudes_tie_counterexample:
  "calculateDistance (Fin 0) (Fin 0) (Fin (1 / 2 ^ 701)) (Fin 0) = Fin 0
   \<and> calculateDistance (Fin 0) (Fin 0) (Fin (1 / 2 ^ 700)) (Fin 0) = Fin 0
   \<and> \<bar>1 / 2 ^ 701 - 0 :: real\<bar> < \<bar>1 / 2 ^ 700 - 0\<bar>
   \<and> \<not> js_lt (calculateDistance (Fin 0) (Fin 0) (Fin (1 / 2 ^ 701)) (Fin 0))
               (calculateDistance (Fin 0) (Fin 0) (Fin (1 / 2 ^ 700)) (Fin 0))"
proof -
  have b: "\<bar>1 / 2 ^ 700 :: real\<bar> \<le> pow2 (- 700)"
    using pow2_neg [of 700] by simp
  have "\<bar>1 / 2 ^ 701 :: real\<bar> = pow2 (- 701)"
    using pow2_neg [of 701] by simp
  also have "\<dots> \<le> pow2 (- 700)" by simp
  finally have a: "\<bar>1 / 2 ^ 701 :: real\<bar> \<le> pow2 (- 700)" .
  have c: "\<bar>1 / 2 ^ 701 - 0 :: real\<bar> < \<bar>1 / 2 ^ 700 - 0\<bar>" by simp
  show ?thesis
    unfolding calculateDistance_tiny [OF a] calculateDistance_tiny [OF b]
    using c by simp
qed

section \<open>Rounding a given value\<close>

text \<open>
  A real between two neighbouring powers of two rounds to the multiple \<open>m\<close> of the
  unit of its binade when it is less than half a unit away from it.  The lemmas that
  follow round the constants met along a meridian.
\<close>

lemma rne_near:
  assumes "\<bar>q - of_int m\<bar> < 1 / 2"
  shows "rne q = m"
proof (cases "of_int m \<le> q")
  case True
  have "\<lfloor>q\<rfloor> = m" using True assms by (intro floor_unique) linarith+
  then show ?thesis using assms True by (simp add: rne_def)
next
  case False
  have "of_int (m - 1) \<le> q" "q < of_int (m - 1) + 1"
    using False assms by (auto simp add: abs_less_iff)
  then have f: "\<lfloor>q\<rfloor> = m - 1" by (rule floor_unique)
  have "1 / 2 < q - of_int (m - 1)" using assms False by (auto simp add: abs_less_iff)
  then show ?thesis unfolding rne_def f by simp
qed

lemma nearest_eval:
  assumes "pow2 k \<le> \<bar>x\<bar>" "\<bar>x\<bar> < pow2 (k + 1)" "- 1022 \<le> k"
    and "\<bar>x / pow2 (k - 52) - of_int m\<bar> < 1 / 2"
  shows "nearest x = of_int m * pow2 (k - 52)"
proof -
  have "expo x = k" using assms(1-3) by (rule expo_eq)
  then show ?thesis unfolding nearest_def ulp_def using rne_near [OF assms(4)] by simp
qed

lemma nearest_repr:
  assumes "pow2 k \<le> \<bar>x\<bar>" "\<bar>x\<bar> < pow2 (k + 1)" "- 1022 \<le> k"
    and "x = of_int m * pow2 (k - 52)"
  shows "nearest x = x"
proof -
  have "expo x = k" using assms(1-3) by (rule expo_eq)
  then have "x / ulp x = of_int m" unfolding ulp_def using assms(4) by simp
  then show ?thesis by (rule nearest_exact)
qed

lemma round64_range:
  assumes "0 \<le> x" "x \<le> g" "nearest g = g'" "g \<le> pow2 k" "- 1022 \<le> k" "k \<le> 1023"
  shows "round64 x = Fin (nearest x)" "0 \<le> nearest x" "nearest x \<le> g'"
proof -
  have "\<bar>x\<bar> \<le> pow2 k" using assms(1,2,4) by simp
  then show "round64 x = Fin (nearest x)" using assms(5,6) by (rule round64_bounded(1))
  show "0 \<le> nearest x" using assms(1) by (rule nearest_nonneg)
  have "nearest x \<le> nearest g" using assms(2) by (rule nearest_mono)
  then show "nearest x \<le> g'" using assms(3) by simp
qed

lemma round64_step:
  assumes "0 \<le> a" "a \<le> b" "b \<le> g" "nearest g = g'" "g \<le> pow2 k" "- 1022 \<le> k" "k \<le> 1023"
  shows "\<exists>a' b'. round64 a = Fin a' \<and> round64 b = Fin b' \<and> 0 \<le> a' \<and> a' \<le> b' \<and> b' \<le> g'"
proof (intro exI conjI)
  have ag: "a \<le> g" and b0: "0 \<le> b" using assms(1-3) by simp_all
  show "round64 a = Fin (nearest a)" using assms(1) ag assms(4-7) by (rule round64_range(1))
  show "round64 b = Fin (nearest b)" using b0 assms(3-7) by (rule round64_range(1))
  show "0 \<le> nearest a" using assms(1) by (rule nearest_nonneg)
  show "nearest a \<le> nearest b" using assms(2) by (rule nearest_mono)
  show "nearest b \<le> g'" using b0 assms(3-7) by (rule round64_range(3))
qed

lemma pow2_numeral_values:
  "pow2 1 = 2" "pow2 2 = 4" "pow2 7 = 128" "pow2 8 = 256" "pow2 9 = 512" "pow2 10 = 1024"
  "pow2 15 = 32768"
  using pow2_nonneg [of 1] pow2_nonneg [of 2] pow2_nonneg [of 7] pow2_nonneg [of 8]
    pow2_nonneg [of 9] pow2_nonneg [of 10] pow2_nonneg [of 15]
  by simp_all

lemma nearest_180: "nearest 180 = 180"
proof (rule nearest_repr [where k = 7 and m = 6333186975989760])
  show "pow2 7 \<le> \<bar>180 :: real\<bar>" by (simp add: pow2_numeral_values)
  show "\<bar>180 :: real\<bar> < pow2 (7 + 1)" by (simp add: pow2_numeral_values)
  show "(180 :: real) = of_int 6333186975989760 * pow2 (7 - 52)"
    using pow2_neg [of 45] by simp
qed simp

lemma nearest_180_MathPI:
  "nearest (4974073419394997 / 8796093022208) = 4974073419394997 / 8796093022208"
proof (rule nearest_repr [where k = 9 and m = 4974073419394997])
  show "pow2 9 \<le> \<bar>4974073419394997 / 8796093022208 :: real\<bar>"
    by (simp add: pow2_numeral_values)
  show "\<bar>4974073419394997 / 8796093022208 :: real\<bar> < pow2 (9 + 1)"
    by (simp add: pow2_numeral_values)
  show "(4974073419394997 / 8796093022208 :: real) = of_int 4974073419394997 * pow2 (9 - 52)"
    using pow2_neg [of 43] by simp
qed simp

lemma nearest_MathPI:
  "nearest (4974073419394997 / 8796093022208 / 180) = 884279719003555 / 281474976710656"
proof -
  have "nearest (4974073419394997 / 8796093022208 / 180)
      = of_int 7074237752028440 * pow2 (1 - 52)"
  proof (rule nearest_eval)
    show "pow2 1 \<le> \<bar>4974073419394997 / 8796093022208 / 180 :: real\<bar>"
      by (simp add: pow2_numeral_values)
    show "\<bar>4974073419394997 / 8796093022208 / 180 :: real\<bar> < pow2 (1 + 1)"
      by (simp add: pow2_numeral_values)
    show "\<bar>4974073419394997 / 8796093022208 / 180 / pow2 (1 - 52) - of_int 7074237752028440\<bar>
        < (1 / 2 :: real)"
    proof -
      have e: "pow2 (1 - 52) = 1 / 2251799813685248" using pow2_neg [of 51] by simp
      show ?thesis unfolding e by simp
    qed
  qed simp
  also have "\<dots> = 884279719003555 / 281474976710656"
    using pow2_neg [of 51] by simp
  finally show ?thesis .
qed

lemma nearest_half_MathPI:
  "nearest (884279719003555 / 562949953421312) = 884279719003555 / 562949953421312"
proof (rule nearest_repr [where k = 0 and m = 7074237752028440])
  show "pow2 0 \<le> \<bar>884279719003555 / 562949953421312 :: real\<bar>" by simp
  show "\<bar>884279719003555 / 562949953421312 :: real\<bar> < pow2 (0 + 1)"
    by (simp add: pow2_numeral_values)
  show "(884279719003555 / 562949953421312 :: real) = of_int 7074237752028440 * pow2 (0 - 52)"
    using pow2_neg [of 52] by simp
qed simp

lemma nearest_MathPI':
  "nearest (4974073419394997 / 1583296743997440) = 884279719003555 / 281474976710656"
  using nearest_MathPI by simp

lemma nearest_1: "nearest 1 = 1"
  using nearest_pow2 [of 0] by simp

lemma nearest_numeral_pow2: "nearest 2 = 2" "nearest 4 = 4" "nearest 32768 = 32768"
  using nearest_pow2 [of 1] nearest_pow2 [of 2] nearest_pow2 [of 15]
  by (simp_all add: pow2_numeral_values)

section \<open>Math.PI is below pi\<close>

text \<open>
  The partial sums of the series of the arc tangent enclose it, and Machin's formula
  turns them into bounds of \<open>\<pi>\<close>: \<open>Math.PI\<close> was rounded down.
\<close>

lemma arctan_partial_sums:
  assumes "0 < x" "x \<le> 1"
  shows "(\<Sum>i<2*n. (- 1) ^ i * (1 / real (i * 2 + 1) * x ^ (i * 2 + 1))) \<le> arctan x"
    and "arctan x \<le> (\<Sum>i<2*n+1. (- 1) ^ i * (1 / real (i * 2 + 1) * x ^ (i * 2 + 1)))"
proof -
  let ?a = "\<lambda>n. 1 / real (n * 2 + 1) * x ^ (n * 2 + 1)"
  have ax: "\<bar>x\<bar> \<le> 1" using assms by simp
  have "0 < ?a 0" using assms by simp
  with summable_Leibniz(2) [OF zeroseq_arctan_series [OF ax] monoseq_arctan_series [OF ax]]
  have "(\<Sum>i. (- 1) ^ i * ?a i) \<in> {\<Sum>i<2*n. (- 1) ^ i * ?a i .. \<Sum>i<2*n+1. (- 1) ^ i * ?a i}"
    by blast
  then show "(\<Sum>i<2*n. (- 1) ^ i * ?a i) \<le> arctan x"
    and "arctan x \<le> (\<Sum>i<2*n+1. (- 1) ^ i * ?a i)"
    unfolding arctan_series [OF ax] by simp_all
qed

lemma arctan_5_lower:
  "(\<Sum>i<14. (- 1) ^ i * (1 / real (i * 2 + 1) * (1 / 5) ^ (i * 2 + 1))) \<le> arctan (1 / 5)"
  using arctan_partial_sums(1) [of "1 / 5" 7] by simp

lemma arctan_239_upper:
  "arctan (1 / 239) \<le> (\<Sum>i<5. (- 1) ^ i * (1 / real (i * 2 + 1) * (1 / 239) ^ (i * 2 + 1)))"
  using arctan_partial_sums(2) [of "1 / 239" 2] by simp

lemma MathPI_less_pi: "884279719003555 / 281474976710656 < pi"
proof -
  have "884279719003555 / 281474976710656
      < 16 * (\<Sum>i<14. (- 1) ^ i * (1 / real (i * 2 + 1) * (1 / 5) ^ (i * 2 + 1)))
        - 4 * (\<Sum>i<5. (- 1) ^ i * (1 / real (i * 2 + 1) * (1 / 239) ^ (i * 2 + 1)))"
    by (simp add: lessThan_nat_numeral power_one_over)
  also have "\<dots> \<le> 16 * arctan (1 / 5) - 4 * arctan (1 / 239)"
    using arctan_5_lower arctan_239_upper by linarith
  also have "\<dots> = pi" using machin by simp
  finally show ?thesis .
qed

section \<open>The angle of a point of the first quadrant\<close>

text \<open>
  For arguments that are not negative, \<open>atan2 y x\<close> lies between \<open>0\<close> and \<open>\<pi>/2\<close>, grows
  with \<open>y\<close> and falls with \<open>x\<close>.
\<close>

lemma atan2_quadrant:
  assumes "0 \<le> y" "0 \<le> x"
  shows "0 \<le> atan2 y x" "atan2 y x \<le> pi / 2"
proof -
  have "0 \<le> arctan (y / x)" using assms by simp
  then show "0 \<le> atan2 y x" using assms by (simp add: atan2_def)
  have "arctan (y / x) \<le> pi / 2" using arctan_ubound [of "y / x"] by simp
  then show "atan2 y x \<le> pi / 2" using assms by (simp add: atan2_def)
qed

lemma atan2_mono:
  assumes "0 \<le> y" "y \<le> y'" "0 \<le> x'" "x' \<le> x"
  shows "atan2 y x \<le> atan2 y' x'"
proof (cases "0 < x'")
  case True
  then have x: "0 < x" using assms(4) by simp
  have "y / x \<le> y' / x'" using assms True by (intro frac_le) simp_all
  then have "arctan (y / x) \<le> arctan (y' / x')" by (simp add: arctan_le_iff)
  then show ?thesis using True x by (simp add: atan2_def)
next
  case False
  then have x': "x' = 0" using assms(3) by simp
  show ?thesis
  proof (cases "0 < y'")
    case True
    then have "atan2 y' x' = pi / 2" using x' by (simp add: atan2_def)
    moreover have "atan2 y x \<le> pi / 2"
      using assms(1) assms(3,4) by (intro atan2_quadrant(2)) simp_all
    ultimately show ?thesis by simp
  next
    case False
    then have "y' = 0" "y = 0" using assms(1,2) by simp_all
    then show ?thesis using x' assms(4) by (simp add: atan2_def)
  qed
qed

section \<open>The distance engine: monotonicity along a meridian\<close>

text \<open>
  On a meridian the second summand of \<open>a\<close> is \<open>0\<close>, and \<open>a\<close> depends on the magnitude of
  the difference of the latitudes only.  Every operation from that difference to the
  result is monotone on the values it meets, and so is its rounding.
\<close>

lemma calculateDistance_distanceOf:
  "calculateDistance lat1 lon1 lat2 lon2 = distanceOf (haversine_a lat1 lon1 lat2 lon2)"
  by (simp add: calculateDistance_def distanceOf_def Let_def)

lemma sinSqHalf_neg: "sinSqHalf (js_neg d) = sinSqHalf d"
  unfolding sinSqHalf_def
  by (simp only: js_div_neg_left js_sin_neg js_mul_neg_left js_mul_neg_right js_neg_neg)

lemma sinSqHalf_toRad_abs: "sinSqHalf (toRad (round64 x)) = sinSqHalf (toRad (round64 \<bar>x\<bar>))"
proof (cases "0 \<le> x")
  case True
  then show ?thesis by simp
next
  case False
  then have "round64 x = js_neg (round64 \<bar>x\<bar>)"
    using round64_minus [of "\<bar>x\<bar>"] by simp
  then show ?thesis by (simp only: toRad_neg sinSqHalf_neg)
qed

lemma haversine_a_meridian:
  assumes "\<bar>lat1\<bar> \<le> pow2 1021" "\<bar>lat2\<bar> \<le> pow2 1021"
  shows "haversine_a (Fin lat1) (Fin lon) (Fin lat2) (Fin lon)
     = sinSqHalf (toRad (round64 \<bar>lat2 - lat1\<bar>))"
proof -
  from js_mul_PI_finite [OF assms(1)] obtain y1 where "js_mul (Fin lat1) MathPI = Fin y1" by blast
  from toRad_finite [OF this] obtain z1 where z1: "toRad (Fin lat1) = Fin z1" by blast
  from js_mul_PI_finite [OF assms(2)] obtain y2 where "js_mul (Fin lat2) MathPI = Fin y2" by blast
  from toRad_finite [OF this] obtain z2 where z2: "toRad (Fin lat2) = Fin z2" by blast
  from js_cos_unit [of z1] obtain c1 where c1: "js_cos (Fin z1) = Fin c1" "\<bar>c1\<bar> \<le> 1" by blast
  from js_cos_unit [of z2] obtain c2 where c2: "js_cos (Fin z2) = Fin c2" "\<bar>c2\<bar> \<le> 1" by blast
  from js_mul_unit [OF c1(2) c2(2)] obtain d where d: "js_mul (Fin c1) (Fin c2) = Fin d" by blast
  have zero: "js_sin (js_div (toRad (js_sub (Fin lon) (Fin lon))) (Fin 2)) = Fin 0"
    by (simp add: js_sub_def toRad_def MathPI_def)
  have sub: "js_sub (Fin lat2) (Fin lat1) = round64 (lat2 - lat1)"
    by (simp add: js_sub_def)
  have "haversine_a (Fin lat1) (Fin lon) (Fin lat2) (Fin lon)
      = js_add (sinSqHalf (toRad (round64 (lat2 - lat1)))) (Fin 0)"
    unfolding haversine_a_def Let_def zero z1 z2 c1(1) c2(1) d sub sinSqHalf_def by simp
  also have "\<dots> = sinSqHalf (toRad (round64 (lat2 - lat1)))"
    unfolding sinSqHalf_def by (rule js_add_zero_mul(2))
  also have "\<dots> = sinSqHalf (toRad (round64 \<bar>lat2 - lat1\<bar>))"
    by (rule sinSqHalf_toRad_abs)
  finally show ?thesis .
qed

lemma sinSqHalf_toRad_mono:
  assumes "0 \<le> x" "x \<le> y" "y \<le> 180"
  obtains t t' where "sinSqHalf (toRad (round64 x)) = Fin t"
    "sinSqHalf (toRad (round64 y)) = Fin t'" "0 \<le> t" "t \<le> t'" "t' \<le> 1"
proof -
  from assms have "\<exists>u u'. round64 x = Fin u \<and> round64 y = Fin u' \<and> 0 \<le> u \<and> u \<le> u' \<and> u' \<le> 180"
    by (intro round64_step [where g = 180 and k = 8])
       (simp_all add: nearest_180 pow2_numeral_values)
  then obtain u u' where u: "round64 x = Fin u" "round64 y = Fin u'" "0 \<le> u" "u \<le> u'" "u' \<le> 180"
    by blast
  have "0 \<le> u * 884279719003555 / 281474976710656"
    "u * 884279719003555 / 281474976710656 \<le> u' * 884279719003555 / 281474976710656"
    "u' * 884279719003555 / 281474976710656 \<le> 4974073419394997 / 8796093022208"
    using u(3-5) by simp_all
  then have "\<exists>v v'. round64 (u * 884279719003555 / 281474976710656) = Fin v \<and> round64 (u' * 884279719003555 / 281474976710656) = Fin v' \<and> 0 \<le> v \<and> v \<le> v' \<and> v' \<le> 4974073419394997 / 8796093022208"
    by (intro round64_step [where g = "4974073419394997 / 8796093022208" and k = 10])
       (simp_all add: nearest_180_MathPI pow2_numeral_values)
  then obtain v v' where v: "round64 (u * 884279719003555 / 281474976710656) = Fin v" "round64 (u' * 884279719003555 / 281474976710656) = Fin v'" "0 \<le> v" "v \<le> v'" "v' \<le> 4974073419394997 / 8796093022208"
    by blast
  have "0 \<le> v / 180" "v / 180 \<le> v' / 180" "v' / 180 \<le> 4974073419394997 / 1583296743997440"
    using v(3-5) by simp_all
  then have "\<exists>w w'. round64 (v / 180) = Fin w \<and> round64 (v' / 180) = Fin w' \<and> 0 \<le> w \<and> w \<le> w' \<and> w' \<le> 884279719003555 / 281474976710656"
    by (intro round64_step [where g = "4974073419394997 / 1583296743997440" and k = 2])
       (simp_all add: nearest_MathPI' pow2_numeral_values)
  then obtain w w' where w: "round64 (v / 180) = Fin w" "round64 (v' / 180) = Fin w'" "0 \<le> w" "w \<le> w'" "w' \<le> 884279719003555 / 281474976710656"
    by blast
  have "0 \<le> w / 2" "w / 2 \<le> w' / 2" "w' / 2 \<le> 884279719003555 / 562949953421312"
    using w(3-5) by simp_all
  then have "\<exists>h h'. round64 (w / 2) = Fin h \<and> round64 (w' / 2) = Fin h' \<and> 0 \<le> h \<and> h \<le> h' \<and> h' \<le> 884279719003555 / 562949953421312"
    by (intro round64_step [where g = "884279719003555 / 562949953421312" and k = 1])
       (simp_all add: nearest_half_MathPI pow2_numeral_values)
  then obtain h h' where h: "round64 (w / 2) = Fin h" "round64 (w' / 2) = Fin h'" "0 \<le> h" "h \<le> h'" "h' \<le> 884279719003555 / 562949953421312"
    by blast
  have hpi: "h' \<le> pi / 2" using h(5) MathPI_less_pi by simp
  have "0 \<le> sin h" using h(3,4) hpi by (intro sin_ge_zero) simp_all
  moreover have "sin h \<le> sin h'" using h(3,4) hpi by (intro sin_monotone_2pi_le) simp_all
  moreover have "sin h' \<le> 1" by simp
  ultimately have "\<exists>s s'. round64 (sin h) = Fin s \<and> round64 (sin h') = Fin s' \<and> 0 \<le> s \<and> s \<le> s' \<and> s' \<le> 1"
    by (intro round64_step [where g = 1 and k = 0])
       (simp_all add: nearest_1)
  then obtain s s' where s: "round64 (sin h) = Fin s" "round64 (sin h') = Fin s'" "0 \<le> s" "s \<le> s'" "s' \<le> 1"
    by blast
  have "0 \<le> s * s" using s(3) by simp
  moreover have "s * s \<le> s' * s'" using s(3,4) by (intro mult_mono) simp_all
  moreover have "s' * s' \<le> 1" using s(3-5) by (simp add: mult_le_one)
  ultimately have "\<exists>t t'. round64 (s * s) = Fin t \<and> round64 (s' * s') = Fin t' \<and> 0 \<le> t \<and> t \<le> t' \<and> t' \<le> 1"
    by (intro round64_step [where g = 1 and k = 0])
       (simp_all add: nearest_1)
  then obtain t t' where t: "round64 (s * s) = Fin t" "round64 (s' * s') = Fin t'" "0 \<le> t" "t \<le> t'" "t' \<le> 1"
    by blast
  have "sinSqHalf (toRad (round64 x)) = Fin t"
    by (simp add: sinSqHalf_def toRad_def MathPI_def u(1) v(1) w(1) h(1) s(1) t(1))
  moreover have "sinSqHalf (toRad (round64 y)) = Fin t'"
    by (simp add: sinSqHalf_def toRad_def MathPI_def u(2) v(2) w(2) h(2) s(2) t(2))
  ultimately show ?thesis using t(3-5) by (rule that)
qed

lemma distanceOf_mono:
  assumes "0 \<le> t" "t \<le> t'" "t' \<le> 1"
  shows "js_le (Fin 0) (distanceOf (Fin t))
    \<and> js_le (distanceOf (Fin t)) (distanceOf (Fin t'))
    \<and> js_lt (distanceOf (Fin t')) PInf"
proof -
  have t'0: "0 \<le> t'" using assms by simp
  have "0 \<le> sqrt t" "sqrt t \<le> sqrt t'" "sqrt t' \<le> 1"
    using assms by simp_all
  then have "\<exists>y y'. round64 (sqrt t) = Fin y \<and> round64 (sqrt t') = Fin y' \<and> 0 \<le> y \<and> y \<le> y' \<and> y' \<le> 1"
    by (intro round64_step [where g = 1 and k = 0])
       (simp_all add: nearest_1)
  then obtain y y' where y: "round64 (sqrt t) = Fin y" "round64 (sqrt t') = Fin y'" "0 \<le> y" "y \<le> y'" "y' \<le> 1"
    by blast
  have "0 \<le> 1 - t'" "1 - t' \<le> 1 - t" "1 - t \<le> 1"
    using assms by simp_all
  then have "\<exists>b' b. round64 (1 - t') = Fin b' \<and> round64 (1 - t) = Fin b \<and> 0 \<le> b' \<and> b' \<le> b \<and> b \<le> 1"
    by (intro round64_step [where g = 1 and k = 0])
       (simp_all add: nearest_1)
  then obtain b' b where b: "round64 (1 - t') = Fin b'" "round64 (1 - t) = Fin b" "0 \<le> b'" "b' \<le> b" "b \<le> 1"
    by blast
  have "0 \<le> sqrt b'" "sqrt b' \<le> sqrt b" "sqrt b \<le> 1"
    using b(3-5) by simp_all
  then have "\<exists>z' z. round64 (sqrt b') = Fin z' \<and> round64 (sqrt b) = Fin z \<and> 0 \<le> z' \<and> z' \<le> z \<and> z \<le> 1"
    by (intro round64_step [where g = 1 and k = 0])
       (simp_all add: nearest_1)
  then obtain z' z where z: "round64 (sqrt b') = Fin z'" "round64 (sqrt b) = Fin z" "0 \<le> z'" "z' \<le> z" "z \<le> 1"
    by blast
  have y'0: "0 \<le> y'" and z0: "0 \<le> z" and b0: "0 \<le> b" using y(3,4) z(3,4) b(3,4) by simp_all
  have "0 \<le> atan2 y z" using y(3) z0 by (rule atan2_quadrant(1))
  moreover have "atan2 y z \<le> atan2 y' z'" using y(3,4) z(3,4) by (rule atan2_mono)
  moreover have "atan2 y' z' \<le> 2"
    using atan2_quadrant(2) [OF y'0 z(3)] pi_half_le_two by simp
  ultimately have "\<exists>c c'. round64 (atan2 y z) = Fin c \<and> round64 (atan2 y' z') = Fin c' \<and> 0 \<le> c \<and> c \<le> c' \<and> c' \<le> 2"
    by (intro round64_step [where g = 2 and k = 1])
       (simp_all add: nearest_numeral_pow2 pow2_numeral_values)
  then obtain c c' where c: "round64 (atan2 y z) = Fin c" "round64 (atan2 y' z') = Fin c'" "0 \<le> c" "c \<le> c'" "c' \<le> 2"
    by blast
  have "0 \<le> 2 * c" "2 * c \<le> 2 * c'" "2 * c' \<le> 4"
    using c(3-5) by simp_all
  then have "\<exists>e e'. round64 (2 * c) = Fin e \<and> round64 (2 * c') = Fin e' \<and> 0 \<le> e \<and> e \<le> e' \<and> e' \<le> 4"
    by (intro round64_step [where g = 4 and k = 2])
       (simp_all add: nearest_numeral_pow2 pow2_numeral_values)
  then obtain e e' where e: "round64 (2 * c) = Fin e" "round64 (2 * c') = Fin e'" "0 \<le> e" "e \<le> e'" "e' \<le> 4"
    by blast
  have "0 \<le> 6371 * e" "6371 * e \<le> 6371 * e'" "6371 * e' \<le> 32768"
    using e(3-5) by simp_all
  then have "\<exists>d d'. round64 (6371 * e) = Fin d \<and> round64 (6371 * e') = Fin d' \<and> 0 \<le> d \<and> d \<le> d' \<and> d' \<le> 32768"
    by (intro round64_step [where g = 32768 and k = 15])
       (simp_all add: nearest_numeral_pow2 pow2_numeral_values)
  then obtain d d' where d: "round64 (6371 * e) = Fin d" "round64 (6371 * e') = Fin d'" "0 \<le> d" "d \<le> d'" "d' \<le> 32768"
    by blast
  have "distanceOf (Fin t) = Fin d"
    using assms(1) b0 by (simp add: distanceOf_def js_sub_def y(1) b(2) z(2) c(1) e(1) d(1))
  moreover have "distanceOf (Fin t') = Fin d'"
    using t'0 b(3) by (simp add: distanceOf_def js_sub_def y(2) b(1) z(1) c(2) e(2) d(2))
  ultimately show ?thesis using d(3,4) by simp
qed

text \<open>
  C6, as amended: with a fixed reference point and a second point on the same
  meridian, all latitudes within \<open>[-90, 90]\<close>, the computed distance does not decrease
  when the second point is moved farther from the reference: if
  \<open>\<bar>lat2 - lat1\<bar> \<le> \<bar>lat3 - lat1\<bar>\<close> then the distance to the latitude \<open>lat2\<close> is at most the
  distance to the latitude \<open>lat3\<close>, and both are finite numbers that are not negative.
\<close>

theorem calculateDistance_meridian_monotone:
  assumes "\<bar>lat1\<bar> \<le> 90" "\<bar>lat2\<bar> \<le> 90" "\<bar>lat3\<bar> \<le> 90"
    and "\<bar>lat2 - lat1\<bar> \<le> \<bar>lat3 - lat1\<bar>"
  shows "js_le (Fin 0) (calculateDistance (Fin lat1) (Fin lon) (Fin lat2) (Fin lon))
    \<and> js_le (calculateDistance (Fin lat1) (Fin lon) (Fin lat2) (Fin lon))
             (calculateDistance (Fin lat1) (Fin lon) (Fin lat3) (Fin lon))
    \<and> js_lt (calculateDistance (Fin lat1) (Fin lon) (Fin lat3) (Fin lon)) PInf"
proof -
  have big: "(90 :: real) \<le> pow2 1021"
  proof -
    have "(90 :: real) \<le> pow2 7" by (simp add: pow2_numeral_values)
    also have "\<dots> \<le> pow2 1021" by simp
    finally show ?thesis .
  qed
  have l: "\<bar>lat1\<bar> \<le> pow2 1021" "\<bar>lat2\<bar> \<le> pow2 1021" "\<bar>lat3\<bar> \<le> pow2 1021"
    using assms(1-3) big by simp_all
  have "0 \<le> \<bar>lat2 - lat1\<bar>" by simp
  moreover note assms(4)
  moreover have "\<bar>lat3 - lat1\<bar> \<le> 180" using assms(1,3) by simp
  ultimately obtain t t' where t: "sinSqHalf (toRad (round64 \<bar>lat2 - lat1\<bar>)) = Fin t"
    "sinSqHalf (toRad (round64 \<bar>lat3 - lat1\<bar>)) = Fin t'" "0 \<le> t" "t \<le> t'" "t' \<le> 1"
    by (rule sinSqHalf_toRad_mono)
  show ?thesis
    unfolding calculateDistance_distanceOf haversine_a_meridian [OF l(1,2)]
      haversine_a_meridian [OF l(1,3)] t(1,2)
    using t(3-5) by (rule distanceOf_mono)
qed

theorem calculateDistance_meridian_monotone_witness:
  "\<bar>0 :: real\<bar> \<le> 90 \<and> \<bar>1 :: real\<bar> \<le> 90 \<and> \<bar>2 :: real\<bar> \<le> 90 \<and> \<bar>1 - 0 :: real\<bar> \<le> \<bar>2 - 0\<bar>
   \<and> js_le (Fin 0) (calculateDistance (Fin 0) (Fin 0) (Fin 1) (Fin 0))
   \<and> js_le (calculateDistance (Fin 0) (Fin 0) (Fin 1) (Fin 0))
             (calculateDistance (Fin 0) (Fin 0) (Fin 2) (Fin 0))
   \<and> js_lt (calculateDistance (Fin 0) (Fin 0) (Fin 2) (Fin 0)) PInf"
  using calculateDistance_meridian_monotone [of 0 1 2 0] by simp

section \<open>The distance engine: the argument of the square roots\<close>

text \<open>
  When the rounded sum \<open>a\<close> exceeds \<open>1\<close>, \<open>1 - a\<close> is negative, its square root is NaN,
  and so is the distance.
\<close>

lemma js_atan2_NaN_right [simp]: "js_atan2 x NaN = NaN"
  by (cases x) simp_all

lemma calculateDistance_a_above_1:
  assumes "haversine_a lat1 lon1 lat2 lon2 = Fin a" "1 < a" "round64 (1 - a) = Fin b" "b < 0"
  shows "calculateDistance lat1 lon1 lat2 lon2 = NaN"
  using assms by (simp add: calculateDistance_def js_sub_def)

text \<open>
  The two points \<open>(8, 0)\<close> and \<open>(-8, 180)\<close> are antipodal: \<open>dLat\<close> is the rounded
  \<open>-16\<pi>/180\<close>, \<open>dLon\<close> is \<open>Math.PI\<close>, and \<open>a\<close> is the rounded sum of the rounded
  \<open>sin\<^sup>2\<close> and \<open>cos\<^sup>2\<close> of the same angle.  The values of the sine and the cosine are
  enclosed by their Maclaurin polynomials, and \<open>\<pi>\<close> by Machin's formula.
\<close>

lemma pow2_numeral:
  "pow2 (numeral n) = 2 ^ numeral n" "pow2 (- numeral n) = 1 / 2 ^ numeral n"
  "pow2 1 = 2" "pow2 (- 1) = 1 / 2"
  using pow2_nonneg [of "numeral n"] pow2_neg [of "numeral n"] pow2_nonneg [of 1] pow2_neg [of 1]
  by simp_all

lemma round64_eval:
  assumes "pow2 k \<le> \<bar>x\<bar>" "\<bar>x\<bar> < pow2 (k + 1)" "- 1022 \<le> k" "k \<le> 1022"
    and "\<bar>x / pow2 (k - 52) - of_int m\<bar> < 1 / 2"
  shows "round64 x = Fin (of_int m * pow2 (k - 52))"
proof -
  have "nearest x = of_int m * pow2 (k - 52)"
    using assms(1-3,5) by (rule nearest_eval)
  moreover have "round64 x = Fin (nearest x)"
    using assms(2-4) by (intro round64_bounded(1) [where k = "k + 1"]) simp_all
  ultimately show ?thesis by simp
qed

lemma cos_lower: "(\<Sum>m<n. cos_coeff m * x ^ m) - inverse (fact n) * \<bar>x\<bar> ^ n \<le> cos x"
proof -
  obtain t where t: "cos x = (\<Sum>m<n. cos_coeff m * x ^ m)
      + (cos (t + 1 / 2 * real n * pi) / fact n) * x ^ n"
    using Maclaurin_cos_expansion [of x n] by blast
  have "\<bar>(cos (t + 1 / 2 * real n * pi) / fact n) * x ^ n\<bar>
      = \<bar>cos (t + 1 / 2 * real n * pi)\<bar> * (inverse (fact n) * \<bar>x\<bar> ^ n)"
    by (simp add: abs_mult power_abs inverse_eq_divide)
  also have "\<dots> \<le> 1 * (inverse (fact n) * \<bar>x\<bar> ^ n)"
    by (intro mult_right_mono) simp_all
  finally have "- (inverse (fact n) * \<bar>x\<bar> ^ n) \<le> (cos (t + 1 / 2 * real n * pi) / fact n) * x ^ n"
    by linarith
  then show ?thesis unfolding t by linarith
qed

lemma sin_lower: "(\<Sum>m<n. sin_coeff m * x ^ m) - inverse (fact n) * \<bar>x\<bar> ^ n \<le> sin x"
  using Maclaurin_sin_bound [of x n] by linarith

lemma arctan_5_upper:
  "arctan (1 / 5) \<le> (\<Sum>i<11. (- 1) ^ i * (1 / real (i * 2 + 1) * (1 / 5) ^ (i * 2 + 1)))"
  using arctan_partial_sums(2) [of "1 / 5" 5] by simp

lemma arctan_239_lower:
  "(\<Sum>i<4. (- 1) ^ i * (1 / real (i * 2 + 1) * (1 / 239) ^ (i * 2 + 1))) \<le> arctan (1 / 239)"
  using arctan_partial_sums(1) [of "1 / 239" 2] by simp

lemma pi_less_MathPI_plus: "pi < 884279719003555 / 281474976710656 + 1 / 2 ^ 48"
proof -
  have "pi = 16 * arctan (1 / 5) - 4 * arctan (1 / 239)" using machin by simp
  also have "\<dots> \<le> 16 * (\<Sum>i<11. (- 1) ^ i * (1 / real (i * 2 + 1) * (1 / 5) ^ (i * 2 + 1)))
        - 4 * (\<Sum>i<4. (- 1) ^ i * (1 / real (i * 2 + 1) * (1 / 239) ^ (i * 2 + 1)))"
    using arctan_5_upper arctan_239_lower by linarith
  also have "\<dots> < 884279719003555 / 281474976710656 + 1 / 2 ^ 48"
    by (simp add: lessThan_nat_numeral power_one_over)
  finally show ?thesis .
qed

lemma cos_ge_quadratic: "1 - x\<^sup>2 / 2 \<le> cos (x :: real)"
proof -
  have "cos x = cos (2 * (x / 2))" by simp
  also have "\<dots> = 1 - 2 * sin (x / 2) ^ 2" by (rule cos_double_sin)
  finally have c: "cos x = 1 - 2 * sin (x / 2) ^ 2" .
  have "\<bar>sin (x / 2)\<bar> \<le> \<bar>x / 2\<bar>" by (rule abs_sin_x_le_abs_x)
  then have "sin (x / 2) ^ 2 \<le> (x / 2) ^ 2"
    unfolding abs_le_square_iff .
  then show ?thesis unfolding c by (simp add: power_divide)
qed

lemma sin_half_MathPI_lower: "1 - 1 / 2 ^ 60 \<le> sin (884279719003555 / 562949953421312 :: real)"
proof -
  let ?h = "884279719003555 / 562949953421312 :: real"
  have d: "0 \<le> pi / 2 - ?h" "pi / 2 - ?h \<le> 1 / 2 ^ 49"
    using MathPI_less_pi pi_less_MathPI_plus by simp_all
  have "sin ?h = cos (pi / 2 - ?h)" by (simp add: cos_diff)
  moreover have "1 - (pi / 2 - ?h)\<^sup>2 / 2 \<le> cos (pi / 2 - ?h)" by (rule cos_ge_quadratic)
  moreover have "(pi / 2 - ?h)\<^sup>2 \<le> (1 / 2 ^ 49)\<^sup>2"
    using d by (intro power_mono) simp_all
  ultimately have "1 - (1 / 2 ^ 49)\<^sup>2 / 2 \<le> sin ?h" by linarith
  moreover have "(1 :: real) - 1 / 2 ^ 60 \<le> 1 - (1 / 2 ^ 49)\<^sup>2 / 2" by (simp add: power_divide)
  ultimately show ?thesis by linarith
qed

lemma js_div_180: "js_div (Fin x) (Fin 180) = round64 (x / 180)"
  by simp

lemma js_div_2: "js_div (Fin x) (Fin 2) = round64 (x / 2)"
  by simp

lemma round64_lower:
  assumes "l \<le> x" "nearest l = l'" "\<bar>x\<bar> \<le> pow2 k" "- 1022 \<le> k" "k \<le> 1023"
  shows "\<exists>y. round64 x = Fin y \<and> l' \<le> y \<and> \<bar>y\<bar> \<le> pow2 k"
proof (intro exI conjI)
  show "round64 x = Fin (nearest x)" using assms(3-5) by (rule round64_bounded(1))
  have "nearest l \<le> nearest x" using assms(1) by (rule nearest_mono)
  then show "l' \<le> nearest x" using assms(2) by simp
  show "\<bar>nearest x\<bar> \<le> pow2 k" using assms(3-5) by (rule round64_bounded(2))
qed

lemma round64_8_MathPI: "round64 (8 * (884279719003555 / 281474976710656)) = Fin (884279719003555 / 35184372088832)"
  using round64_eval [where x = "8 * (884279719003555 / 281474976710656)" and k = "4" and m = 7074237752028440]
  by (simp add: pow2_numeral)

lemma round64_8_MathPI_180: "round64 (884279719003555 / 35184372088832 / 180) = Fin (5030569068109113 / 36028797018963968)"
  using round64_eval [where x = "884279719003555 / 35184372088832 / 180" and k = "-3" and m = 5030569068109113]
  by (simp add: pow2_numeral)

lemma round64_16_MathPI: "round64 (16 * (884279719003555 / 281474976710656)) = Fin (884279719003555 / 17592186044416)"
  using round64_eval [where x = "16 * (884279719003555 / 281474976710656)" and k = "5" and m = 7074237752028440]
  by (simp add: pow2_numeral)

lemma round64_16_MathPI_180: "round64 (884279719003555 / 17592186044416 / 180) = Fin (5030569068109113 / 18014398509481984)"
  using round64_eval [where x = "884279719003555 / 17592186044416 / 180" and k = "-2" and m = 5030569068109113]
  by (simp add: pow2_numeral)

lemma round64_halfAngle: "round64 (5030569068109113 / 18014398509481984 / 2) = Fin (5030569068109113 / 36028797018963968)"
  using round64_eval [where x = "5030569068109113 / 18014398509481984 / 2" and k = "-3" and m = 5030569068109113]
  by (simp add: pow2_numeral)

lemma round64_180: "round64 (180) = Fin (180)"
  using round64_eval [where x = "180" and k = "7" and m = 6333186975989760]
  by (simp add: pow2_numeral)

lemma round64_180_MathPI: "round64 (180 * (884279719003555 / 281474976710656)) = Fin (4974073419394997 / 8796093022208)"
  using round64_eval [where x = "180 * (884279719003555 / 281474976710656)" and k = "9" and m = 4974073419394997]
  by (simp add: pow2_numeral)

lemma round64_180_MathPI_180: "round64 (4974073419394997 / 8796093022208 / 180) = Fin (884279719003555 / 281474976710656)"
  using round64_eval [where x = "4974073419394997 / 8796093022208 / 180" and k = "1" and m = 7074237752028440]
  by (simp add: pow2_numeral)

lemma round64_MathPI_2: "round64 (884279719003555 / 281474976710656 / 2) = Fin (884279719003555 / 562949953421312)"
  using round64_eval [where x = "884279719003555 / 281474976710656 / 2" and k = "0" and m = 7074237752028440]
  by (simp add: pow2_numeral)

lemma round64_16: "round64 (16) = Fin (16)"
  using round64_eval [where x = "16" and k = "4" and m = 4503599627370496]
  by (simp add: pow2_numeral)

lemma nearest_sin_lower: "nearest (5014239404989977 / 36028797018963968) = 5014239404989977 / 36028797018963968"
  using nearest_eval [where x = "5014239404989977 / 36028797018963968" and k = "-3" and m = 5014239404989977]
  by (simp add: pow2_numeral)

lemma nearest_cos_lower: "nearest (1141701351777647809 / 1152921504606846976) = 4459770905381437 / 4503599627370496"
  using nearest_eval [where x = "1141701351777647809 / 1152921504606846976" and k = "-1" and m = 8919541810762874]
  by (simp add: pow2_numeral)

lemma nearest_sinSq: "nearest (5014239404989977 / 36028797018963968 * (5014239404989977 / 36028797018963968)) = 1395694493897217 / 72057594037927936"
  using nearest_eval [where x = "5014239404989977 / 36028797018963968 * (5014239404989977 / 36028797018963968)" and k = "-6" and m = 5582777975588868]
  by (simp add: pow2_numeral)

lemma nearest_cosSq: "nearest (4459770905381437 / 4503599627370496 * (4459770905381437 / 4503599627370496)) = 8832737443003841 / 9007199254740992"
  using nearest_eval [where x = "4459770905381437 / 4503599627370496 * (4459770905381437 / 4503599627370496)" and k = "-1" and m = 8832737443003841]
  by (simp add: pow2_numeral)

lemma nearest_a: "nearest (1395694493897217 / 72057594037927936 + 8832737443003841 / 9007199254740992) = 4503599627370497 / 4503599627370496"
  using nearest_eval [where x = "1395694493897217 / 72057594037927936 + 8832737443003841 / 9007199254740992" and k = "0" and m = 4503599627370497]
  by (simp add: pow2_numeral)

lemma nearest_below_1: "nearest (1 - 1 / 2 ^ 60) = 1"
  using nearest_eval [where x = "1 - 1 / 2 ^ 60" and k = "-1" and m = 9007199254740992]
  by (simp add: pow2_numeral)

lemma sin_z_lower: "5014239404989977 / 36028797018963968 \<le> sin (5030569068109113 / 36028797018963968 :: real)"
proof -
  let ?z = "5030569068109113 / 36028797018963968 :: real"
  have "5014239404989977 / 36028797018963968 \<le> (\<Sum>m<12. sin_coeff m * ?z ^ m) - inverse (fact 12) * \<bar>?z\<bar> ^ 12"
    by (simp add: sin_coeff_def lessThan_nat_numeral fact_numeral power_divide)
  also have "\<dots> \<le> sin ?z" by (rule sin_lower)
  finally show ?thesis .
qed

lemma cos_z_lower: "1141701351777647809 / 1152921504606846976 \<le> cos (5030569068109113 / 36028797018963968 :: real)"
proof -
  let ?z = "5030569068109113 / 36028797018963968 :: real"
  have "1141701351777647809 / 1152921504606846976 \<le> (\<Sum>m<12. cos_coeff m * ?z ^ m) - inverse (fact 12) * \<bar>?z\<bar> ^ 12"
    by (simp add: cos_coeff_def lessThan_nat_numeral fact_numeral power_divide)
  also have "\<dots> \<le> cos ?z" by (rule cos_lower)
  finally show ?thesis .
qed

lemma toRad_8: "toRad (Fin 8) = Fin (5030569068109113 / 36028797018963968)"
  unfolding toRad_def MathPI_def js_mul.simps round64_8_MathPI js_div_180 round64_8_MathPI_180 ..

lemma toRad_16: "toRad (Fin 16) = Fin (5030569068109113 / 18014398509481984)"
  unfolding toRad_def MathPI_def js_mul.simps round64_16_MathPI js_div_180 round64_16_MathPI_180 ..

lemma toRad_180: "toRad (Fin 180) = Fin (884279719003555 / 281474976710656)"
  unfolding toRad_def MathPI_def js_mul.simps round64_180_MathPI js_div_180
    round64_180_MathPI_180 ..

lemma halfAngle_lat:
  "js_div (toRad (round64 16)) (Fin 2) = Fin (5030569068109113 / 36028797018963968)"
  unfolding round64_16 toRad_16 js_div_2 round64_halfAngle ..

lemma halfAngle_lon:
  "js_div (toRad (js_sub (Fin 180) (Fin 0))) (Fin 2) = Fin (884279719003555 / 562949953421312)"
proof -
  have e: "js_sub (Fin 180) (Fin 0) = Fin 180" by (simp add: js_sub_def round64_180)
  show ?thesis unfolding e toRad_180 js_div_2 round64_MathPI_2 ..
qed

lemma js_sin_half_MathPI: "js_sin (Fin (884279719003555 / 562949953421312)) = Fin 1"
proof -
  let ?h = "884279719003555 / 562949953421312 :: real"
  have "nearest (1 - 1 / 2 ^ 60) \<le> nearest (sin ?h)"
    using sin_half_MathPI_lower by (rule nearest_mono)
  moreover have "nearest (sin ?h) \<le> nearest 1" by (rule nearest_mono) simp
  ultimately have n: "nearest (sin ?h) = 1"
    unfolding nearest_below_1 nearest_1 by simp
  have "round64 (sin ?h) = Fin (nearest (sin ?h))"
    by (rule round64_bounded(1) [where k = 0]) simp_all
  then show ?thesis unfolding n by simp
qed

lemma haversine_a_antipodal:
  "\<exists>a. haversine_a (Fin 8) (Fin 0) (Fin (- 8)) (Fin 180) = Fin a
     \<and> 4503599627370497 / 4503599627370496 \<le> a \<and> a \<le> 2"
proof -
  let ?z = "5030569068109113 / 36028797018963968 :: real"
  have sub: "js_sub (Fin (- 8)) (Fin 8) = round64 (- 16)" by (simp add: js_sub_def)
  have first0: "sinSqHalf (toRad (js_sub (Fin (- 8)) (Fin 8))) = sinSqHalf (toRad (round64 16))"
    unfolding sub using sinSqHalf_toRad_abs [of "- 16"] by simp
  have "\<bar>sin ?z\<bar> \<le> pow2 0" by simp
  from round64_lower [OF sin_z_lower nearest_sin_lower this]
  obtain s where s: "round64 (sin ?z) = Fin s" "5014239404989977 / 36028797018963968 \<le> s"
      "\<bar>s\<bar> \<le> pow2 0"
    by auto
  have s1: "0 \<le> s" "s \<le> 1" using s(2,3) by simp_all
  have ss: "5014239404989977 / 36028797018963968 * (5014239404989977 / 36028797018963968) \<le> s * s"
    using s(2) by (intro mult_mono) simp_all
  have "\<bar>s * s\<bar> \<le> pow2 0" using s1 by (simp add: mult_le_one)
  from round64_lower [OF ss nearest_sinSq this]
  obtain t where t: "round64 (s * s) = Fin t" "1395694493897217 / 72057594037927936 \<le> t"
      "\<bar>t\<bar> \<le> pow2 0"
    by auto
  have "sinSqHalf (toRad (round64 16)) = Fin t"
    unfolding sinSqHalf_def halfAngle_lat js_sin.simps s(1) js_mul.simps t(1) ..
  then have first: "sinSqHalf (toRad (js_sub (Fin (- 8)) (Fin 8))) = Fin t"
    by (simp only: first0)
  have "\<bar>cos ?z\<bar> \<le> pow2 0" by simp
  from round64_lower [OF cos_z_lower nearest_cos_lower this]
  obtain c where c: "round64 (cos ?z) = Fin c" "4459770905381437 / 4503599627370496 \<le> c"
      "\<bar>c\<bar> \<le> pow2 0"
    by auto
  have c1: "0 \<le> c" "c \<le> 1" using c(2,3) by simp_all
  have cos8: "js_cos (toRad (Fin 8)) = Fin c"
    unfolding toRad_8 js_cos.simps c(1) ..
  have "toRad (Fin (- 8)) = js_neg (toRad (Fin 8))"
    using toRad_neg [of "Fin 8"] by simp
  then have cosm8: "js_cos (toRad (Fin (- 8))) = Fin c"
    by (simp add: toRad_8 c(1))
  have cc0: "4459770905381437 / 4503599627370496 * (4459770905381437 / 4503599627370496) \<le> c * c"
    using c(2) by (intro mult_mono) simp_all
  have "\<bar>c * c\<bar> \<le> pow2 0" using c1 by (simp add: mult_le_one)
  from round64_lower [OF cc0 nearest_cosSq this]
  obtain cc where cc: "round64 (c * c) = Fin cc" "8832737443003841 / 9007199254740992 \<le> cc"
      "\<bar>cc\<bar> \<le> pow2 0"
    by auto
  have sum: "1395694493897217 / 72057594037927936 + 8832737443003841 / 9007199254740992 \<le> t + cc"
    using t(2) cc(2) by (rule add_mono)
  have "\<bar>t + cc\<bar> \<le> pow2 1" using t(3) cc(3) by (simp add: pow2_numeral)
  from round64_lower [OF sum nearest_a this]
  obtain a where a: "round64 (t + cc) = Fin a" "4503599627370497 / 4503599627370496 \<le> a"
      "\<bar>a\<bar> \<le> pow2 1"
    by auto
  have "haversine_a (Fin 8) (Fin 0) (Fin (- 8)) (Fin 180) = Fin a"
    unfolding haversine_a_def Let_def first [unfolded sinSqHalf_def] cos8 cosm8 halfAngle_lon
      js_sin_half_MathPI
    by (simp add: cc(1) round64_idem [OF cc(1)] a(1))
  moreover have "a \<le> 2" using a(3) by (simp add: pow2_numeral)
  ultimately show ?thesis using a(2) by blast
qed

text \<open>
  C5: for finite inputs with latitudes in \<open>[-90, 90]\<close> and longitudes in \<open>[-180, 180]\<close>
  the distance is never NaN, the argument \<open>a\<close> of the square roots being at most \<open>1\<close>.
  The function does not do that: for the points \<open>(8, 0)\<close> and \<open>(-8, 180)\<close> the rounded
  \<open>a\<close> is above \<open>1\<close>, and the distance is NaN.
\<close>

theorem calculateDistance_antipodal_NaN:
  "calculateDistance (Fin 8) (Fin 0) (Fin (- 8)) (Fin 180) = NaN
   \<and> js_lt (Fin 1) (haversine_a (Fin 8) (Fin 0) (Fin (- 8)) (Fin 180))"
proof -
  from haversine_a_antipodal obtain a
    where a: "haversine_a (Fin 8) (Fin 0) (Fin (- 8)) (Fin 180) = Fin a"
      "4503599627370497 / 4503599627370496 \<le> a" "a \<le> 2"
    by blast
  have a1: "1 < a" using a(2) by simp
  have le: "1 - a \<le> - pow2 (- 52)" using a(2) by (simp add: pow2_numeral)
  have "\<bar>1 - a\<bar> \<le> pow2 0" using a(2,3) by simp
  then have r: "round64 (1 - a) = Fin (nearest (1 - a))"
    by (rule round64_bounded(1)) simp_all
  have "nearest (1 - a) \<le> nearest (- pow2 (- 52))" using le by (rule nearest_mono)
  also have "\<dots> = - pow2 (- 52)" by (simp add: nearest_minus nearest_pow2)
  finally have "nearest (1 - a) < 0" using pow2_pos [of "- 52"] by linarith
  with calculateDistance_a_above_1 [OF a(1) a1 r]
  show ?thesis using a(1) a1 by simp
qed


section \<open>The detail builder: which features yield an item\<close>

lemma foldl_pushDetail: "foldl pushDetail acc fs = acc @ List.map_filter featureDetail fs"
  by (induction fs arbitrary: acc) (simp_all add: pushDetail_def List.map_filter_simps split: option.split)

lemma detailedDataOf_map_filter: "detailedDataOf fs = List.map_filter featureDetail fs"
  by (simp add: detailedDataOf_def foldl_pushDetail)

lemma detailedDataOf_append:
  "detailedDataOf (xs @ ys) = detailedDataOf xs @ detailedDataOf ys"
  by (induction xs) (simp_all add: detailedDataOf_map_filter List.map_filter_simps split: option.split)

lemma detailedDataOf_Cons:
  "detailedDataOf (f # fs) = (case featureDetail f of None \<Rightarrow> [] | Some d \<Rightarrow> [d]) @ detailedDataOf fs"
  by (simp add: detailedDataOf_map_filter List.map_filter_simps split: option.split)

text \<open>
  C7: a feature of kind LineString or MultiLineString whose sequence of coordinates,
  flattened for a MultiLineString, has fewer than two elements yields no item: the
  callback pushes nothing, and the output for a collection is the same with or
  without the feature.  The feature with LineString coordinates \<open>[[2,1]]\<close> is the
  instance below.
\<close>

theorem short_line_no_entry:
  assumes "geometry f = Some g"
    and "Geometry.type g = ''LineString'' \<or> Geometry.type g = ''MultiLineString''"
    and "length (lineCoordinates g) < 2"
  shows "featureDetail f = None
         \<and> detailedDataOf (before @ f # after) = detailedDataOf (before @ after)"
proof -
  have n: "featureDetail f = None"
    using assms by (auto simp add: featureDetail_def Let_def)
  then show ?thesis
    by (simp add: detailedDataOf_append detailedDataOf_Cons)
qed

theorem short_line_no_entry_witness:
  "detailedDataOf
     [\<lparr>geometry = Some \<lparr>Geometry.type = ''LineString'',
                         coordinates = [Arr [Num (Fin 2), Num (Fin 1)]]\<rparr>,
       properties = \<lparr>Properties.name = Some ''Track''\<rparr>\<rparr>] = []"
  using short_line_no_entry
    [of "\<lparr>geometry = Some \<lparr>Geometry.type = ''LineString'',
                         coordinates = [Arr [Num (Fin 2), Num (Fin 1)]]\<rparr>,
       properties = \<lparr>Properties.name = Some ''Track''\<rparr>\<rparr>"
        "\<lparr>Geometry.type = ''LineString'', coordinates = [Arr [Num (Fin 2), Num (Fin 1)]]\<rparr>"
        "[]" "[]"]
  by (simp add: lineCoordinates_def detailedDataOf_def)

lemma featureDetail_Some_lineShaped:
  "featureDetail f = Some item \<Longrightarrow>
     lineShaped f \<and> (DetailItem.type item = ''LineString'' \<or> DetailItem.type item = ''MultiLineString'')"
  by (auto simp add: featureDetail_def lineShaped_def hasKind_def Let_def split: option.splits if_splits)

lemma map_filter_subseq:
  "map Some (List.map_filter h xs) = map h (filter (\<lambda>x. h x \<noteq> None) xs)"
  by (induction xs) (auto simp add: List.map_filter_simps split: option.split)

text \<open>
  C8: the output of the detail builder consists of the items of a subsequence of the
  input features, in the order of the input, and every feature of that subsequence
  has a geometry that is present and of kind LineString or MultiLineString.
\<close>

theorem details_only_lines_in_order:
  "\<exists>src. subseq src fs
         \<and> list_all lineShaped src
         \<and> map featureDetail src = map Some (detailedDataOf fs)"
proof -
  define src where "src = filter (\<lambda>f. featureDetail f \<noteq> None) fs"
  have "subseq src fs" unfolding src_def by (rule subseq_filter_left)
  moreover have "list_all lineShaped src"
    unfolding src_def list_all_iff using featureDetail_Some_lineShaped by auto
  moreover have "map featureDetail src = map Some (detailedDataOf fs)"
    unfolding src_def detailedDataOf_map_filter map_filter_subseq ..
  ultimately show ?thesis by blast
qed

theorem details_only_lines_in_order_witness:
  "\<exists>src. subseq src
           [\<lparr>geometry = None, properties = \<lparr>Properties.name = Some ''A''\<rparr>\<rparr>,
            \<lparr>geometry = Some \<lparr>Geometry.type = ''LineString'',
                               coordinates = [Arr [Num (Fin 0), Num (Fin 0)],
                                              Arr [Num (Fin 0), Num (Fin 1)]]\<rparr>,
             properties = \<lparr>Properties.name = Some ''B''\<rparr>\<rparr>]
         \<and> list_all lineShaped src
         \<and> map featureDetail src
             = map Some (detailedDataOf
                 [\<lparr>geometry = None, properties = \<lparr>Properties.name = Some ''A''\<rparr>\<rparr>,
                  \<lparr>geometry = Some \<lparr>Geometry.type = ''LineString'',
                                     coordinates = [Arr [Num (Fin 0), Num (Fin 0)],
                                                    Arr [Num (Fin 0), Num (Fin 1)]]\<rparr>,
                   properties = \<lparr>Properties.name = Some ''B''\<rparr>\<rparr>])"
  by (rule details_only_lines_in_order)

text \<open>
  C10: when a feature yields an item and its \<open>name\<close> property is present but is the
  empty string, the name of the item is \<open>"Unnamed"\<close>.
\<close>

theorem empty_name_is_Unnamed:
  assumes "Properties.name (properties f) = Some []" and "featureDetail f \<noteq> None"
  shows "map_option DetailItem.name (featureDetail f) = Some ''Unnamed''"
  using assms
  by (auto simp add: featureDetail_def nameOrUnnamed_def Let_def split: option.splits if_splits)

theorem empty_name_is_Unnamed_witness:
  "map_option DetailItem.name
     (featureDetail
        \<lparr>geometry = Some \<lparr>Geometry.type = ''LineString'',
                           coordinates = [Arr [Num (Fin 0), Num (Fin 0)],
                                          Arr [Num (Fin 0), Num (Fin 1)]]\<rparr>,
         properties = \<lparr>Properties.name = Some []\<rparr>\<rparr>) = Some ''Unnamed''"
proof (rule empty_name_is_Unnamed)
  show "Properties.name (properties
        \<lparr>geometry = Some \<lparr>Geometry.type = ''LineString'',
                           coordinates = [Arr [Num (Fin 0), Num (Fin 0)],
                                          Arr [Num (Fin 0), Num (Fin 1)]]\<rparr>,
         properties = \<lparr>Properties.name = Some []\<rparr>\<rparr>) = Some []"
    by simp
  show "featureDetail
        \<lparr>geometry = Some \<lparr>Geometry.type = ''LineString'',
                           coordinates = [Arr [Num (Fin 0), Num (Fin 0)],
                                          Arr [Num (Fin 0), Num (Fin 1)]]\<rparr>,
         properties = \<lparr>Properties.name = Some []\<rparr>\<rparr> \<noteq> None"
    by (simp add: featureDetail_def lineCoordinates_def Let_def)
qed

section \<open>The detail builder: the accumulated length\<close>

lemma flat1_map_Arr: "flat1 (map Arr ls) = concat ls"
  by (induction ls) simp_all

lemma skipSegment_pairVal: "\<not> skipSegment (pairVal p) (pairVal q)"
  by (simp add: skipSegment_def pairVal_def)

lemma lengthLoop_pairVal:
  "lengthLoop (map pairVal ps) len = foldl js_add len (segmentDistances ps)"
proof (induction ps arbitrary: len)
  case Nil
  show ?case by (simp add: segmentDistances_def)
next
  case (Cons p ps)
  show ?case
  proof (cases ps)
    case Nil
    then show ?thesis by (simp add: segmentDistances_def)
  next
    case (Cons q rest)
    have step: "lengthLoop (map pairVal (p # q # rest)) len
        = lengthLoop (map pairVal (q # rest))
            (js_add len (calculateDistance (fst p) (snd p) (fst q) (snd q)))"
      using skipSegment_pairVal [of p q] by (simp add: pairVal_def)
    have seg: "segmentDistances (p # q # rest)
        = calculateDistance (fst p) (snd p) (fst q) (snd q) # segmentDistances (q # rest)"
      by (simp add: segmentDistances_def)
    show ?thesis
      unfolding Cons step seg using Cons.IH [unfolded Cons] by simp
  qed
qed

lemma calculateDistance_one_one:
  "calculateDistance (Fin 1) (Fin 0) (Fin 1) (Fin 0) = Fin 0"
proof -
  have "(1 :: real) = pow2 0" by simp
  also have "\<dots> \<le> pow2 1021" by (simp only: pow2_le_iff)
  finally have "\<bar>1 :: real\<bar> \<le> pow2 1021" by simp
  then have "\<exists>y. js_mul (Fin 1) MathPI = Fin y" by (rule js_mul_PI_finite)
  then show ?thesis by (simp add: calculateDistance_same)
qed

lemma example_sum:
  "js_add (js_add (js_add (Fin 0) (calculateDistance (Fin 0) (Fin 0) (Fin 1) (Fin 0)))
                        (calculateDistance (Fin 1) (Fin 0) (Fin 1) (Fin 0)))
                        (calculateDistance (Fin 1) (Fin 0) (Fin 2) (Fin 0))
   = js_add (calculateDistance (Fin 0) (Fin 0) (Fin 1) (Fin 0))
                (calculateDistance (Fin 1) (Fin 0) (Fin 2) (Fin 0))"
  unfolding calculateDistance_one_one js_add_zero_calculateDistance ..

lemma featureDetail_MultiLineString:
  assumes "2 \<le> length (concat lines)"
  shows "featureDetail
           \<lparr>geometry = Some \<lparr>Geometry.type = ''MultiLineString'',
                              coordinates = map (\<lambda>l. Arr (map pairVal l)) lines\<rparr>,
            properties = pr\<rparr>
         = Some \<lparr>DetailItem.type = ''MultiLineString'',
                  length' = toFixed2 (pathLength (concat lines)),
                  name = nameOrUnnamed (Properties.name pr)\<rparr>"
proof -
  have "map (\<lambda>l. Arr (map pairVal l)) lines = map Arr (map (map pairVal) lines)"
    by simp
  then have flat: "flat1 (map (\<lambda>l. Arr (map pairVal l)) lines) = map pairVal (concat lines)"
    by (simp only: flat1_map_Arr map_concat)
  have len: "lengthLoop (map pairVal (concat lines)) (Fin 0) = pathLength (concat lines)"
    unfolding pathLength_def by (rule lengthLoop_pairVal)
  show ?thesis
    using assms by (simp add: featureDetail_def lineCoordinates_def flat len Let_def)
qed

lemma example_length:
  "lengthLoop [Arr [Num (Fin 0), Num (Fin 0)], Arr [Num (Fin 0), Num (Fin 1)],
          Arr [Num (Fin 0), Num (Fin 1)], Arr [Num (Fin 0), Num (Fin 2)]] (Fin 0)
     = js_add (calculateDistance (Fin 0) (Fin 0) (Fin 1) (Fin 0))
              (calculateDistance (Fin 1) (Fin 0) (Fin 2) (Fin 0))"
proof -
  have "lengthLoop (map pairVal [(Fin 0, Fin 0), (Fin 1, Fin 0), (Fin 1, Fin 0), (Fin 2, Fin 0)]) (Fin 0)
      = foldl js_add (Fin 0)
          (segmentDistances [(Fin 0, Fin 0), (Fin 1, Fin 0), (Fin 1, Fin 0), (Fin 2, Fin 0)])"
    by (rule lengthLoop_pairVal)
  also have "\<dots> = js_add (js_add (js_add (Fin 0) (calculateDistance (Fin 0) (Fin 0) (Fin 1) (Fin 0)))
                        (calculateDistance (Fin 1) (Fin 0) (Fin 1) (Fin 0)))
                        (calculateDistance (Fin 1) (Fin 0) (Fin 2) (Fin 0))"
    by (simp add: segmentDistances_def)
  also have "\<dots> = js_add (calculateDistance (Fin 0) (Fin 0) (Fin 1) (Fin 0))
                (calculateDistance (Fin 1) (Fin 0) (Fin 2) (Fin 0))"
    by (rule example_sum)
  finally show ?thesis by (simp add: pairVal_def)
qed

text \<open>
  C3: for a MultiLineString the detail builder flattens the coordinates one level, the
  sub-lines being concatenated end to end, and the accumulated length is the sum of
  the distances between all consecutive pairs of the flattened sequence, the pair
  that joins one sub-line to the next included.  The sub-lines
  \<open>[[[0,0],[0,1]],[[0,1],[0,2]]]\<close> flatten to \<open>[[0,0],[0,1],[0,1],[0,2]]\<close>, and the
  accumulated length is the sum of the distances of the two segments of one degree
  of latitude.
\<close>

theorem multiLineString_flattened_length:
  "lineCoordinates \<lparr>Geometry.type = ''MultiLineString'', coordinates = map Arr ls\<rparr> = concat ls
   \<and> (2 \<le> length (concat lines) \<longrightarrow>
        featureDetail
          \<lparr>geometry = Some \<lparr>Geometry.type = ''MultiLineString'',
                             coordinates = map (\<lambda>l. Arr (map pairVal l)) lines\<rparr>,
           properties = pr\<rparr>
        = Some \<lparr>DetailItem.type = ''MultiLineString'',
                 length' = toFixed2 (pathLength (concat lines)),
                 name = nameOrUnnamed (Properties.name pr)\<rparr>)
   \<and> lineCoordinates \<lparr>Geometry.type = ''MultiLineString'',
        coordinates = [Arr [Arr [Num (Fin 0), Num (Fin 0)], Arr [Num (Fin 0), Num (Fin 1)]],
                       Arr [Arr [Num (Fin 0), Num (Fin 1)], Arr [Num (Fin 0), Num (Fin 2)]]]\<rparr>
       = [Arr [Num (Fin 0), Num (Fin 0)], Arr [Num (Fin 0), Num (Fin 1)],
          Arr [Num (Fin 0), Num (Fin 1)], Arr [Num (Fin 0), Num (Fin 2)]]
   \<and> lengthLoop (lineCoordinates \<lparr>Geometry.type = ''MultiLineString'',
        coordinates = [Arr [Arr [Num (Fin 0), Num (Fin 0)], Arr [Num (Fin 0), Num (Fin 1)]],
                       Arr [Arr [Num (Fin 0), Num (Fin 1)], Arr [Num (Fin 0), Num (Fin 2)]]]\<rparr>) (Fin 0)
       = js_add (calculateDistance (Fin 0) (Fin 0) (Fin 1) (Fin 0))
                (calculateDistance (Fin 1) (Fin 0) (Fin 2) (Fin 0))"
proof -
  have a: "lineCoordinates \<lparr>Geometry.type = ''MultiLineString'', coordinates = map Arr ls\<rparr> = concat ls"
    by (simp add: lineCoordinates_def flat1_map_Arr)
  have c: "lineCoordinates \<lparr>Geometry.type = ''MultiLineString'',
        coordinates = [Arr [Arr [Num (Fin 0), Num (Fin 0)], Arr [Num (Fin 0), Num (Fin 1)]],
                       Arr [Arr [Num (Fin 0), Num (Fin 1)], Arr [Num (Fin 0), Num (Fin 2)]]]\<rparr>
       = [Arr [Num (Fin 0), Num (Fin 0)], Arr [Num (Fin 0), Num (Fin 1)],
          Arr [Num (Fin 0), Num (Fin 1)], Arr [Num (Fin 0), Num (Fin 2)]]"
    by (simp add: lineCoordinates_def)
  show ?thesis
    unfolding c using a featureDetail_MultiLineString [of lines pr] example_length by blast
qed

theorem multiLineString_flattened_length_witness:
  "featureDetail
     \<lparr>geometry = Some \<lparr>Geometry.type = ''MultiLineString'',
                        coordinates = map (\<lambda>l. Arr (map pairVal l))
                          [[(Fin 0, Fin 0), (Fin 1, Fin 0)], [(Fin 1, Fin 0), (Fin 2, Fin 0)]]\<rparr>,
      properties = \<lparr>Properties.name = Some ''Ridge''\<rparr>\<rparr>
   = Some \<lparr>DetailItem.type = ''MultiLineString'',
            length' = toFixed2 (pathLength
                        (concat [[(Fin 0, Fin 0), (Fin 1, Fin 0)], [(Fin 1, Fin 0), (Fin 2, Fin 0)]])),
            name = nameOrUnnamed (Properties.name \<lparr>Properties.name = Some ''Ridge''\<rparr>)\<rparr>"
  using multiLineString_flattened_length
    [of "[]" "[[(Fin 0, Fin 0), (Fin 1, Fin 0)], [(Fin 1, Fin 0), (Fin 2, Fin 0)]]"
        "\<lparr>Properties.name = Some ''Ridge''\<rparr>"]
  by simp

section \<open>Pairs that are skipped\<close>

lemma calculateDistance_infinite_longitude:
  "calculateDistance (Fin 0) PInf (Fin 0) (Fin 0) = NaN"
proof -
  have "js_sin (js_div (toRad (js_sub (Fin 0) PInf)) (Fin 2)) = NaN"
    by (simp add: toRad_def MathPI_def js_sub_def inf_of_sign_def)
  then have "haversine_a (Fin 0) PInf (Fin 0) (Fin 0) = NaN"
    by (simp add: haversine_a_def Let_def)
  then show ?thesis by (rule calculateDistance_of_NaN)
qed

lemma skipSegment_iff: "skipSegment c d = (\<not> numberPair c \<or> \<not> numberPair d)"
proof -
  have one: "\<And>c. (\<not> truthy c \<or> lengthLt2 c \<or> \<not> typeofNumber (elemAt c 0) \<or> \<not> typeofNumber (elemAt c 1))
               = (\<not> numberPair c)"
  proof -
    fix c
    show "(\<not> truthy c \<or> lengthLt2 c \<or> \<not> typeofNumber (elemAt c 0) \<or> \<not> typeofNumber (elemAt c 1))
               = (\<not> numberPair c)"
      by (induction c rule: numberPair.induct) simp_all
  qed
  show ?thesis
    unfolding skipSegment_def using one [of c] one [of d] by blast
qed

lemma foldCoord_not_numberPair: "\<not> numberPair (Arr xs) \<Longrightarrow> foldCoord env (Arr xs) = Inr env"
  by (induction "Arr xs" arbitrary: xs rule: numberPair.induct) (simp_all add: Let_def)

text \<open>
  C2, as amended: a segment is skipped exactly when one of its two ends is not an
  array whose first two elements are numbers.  A coordinate pair in which a component
  is absent or is not a number is therefore skipped: in the detail builder the
  segments that touch it leave the accumulated length as it is and the loop goes on
  with the next segment; in the envelope builder the pair is not folded, the
  accumulator and the flag stay as they are, and the iteration goes on with the
  remaining pairs.  NaN and the infinities are numbers: a pair that holds one is not
  skipped.
\<close>

theorem non_number_pair_skipped:
  "skipSegment c d = (\<not> numberPair c \<or> \<not> numberPair d)
   \<and> (\<not> numberPair (Arr xs) \<longrightarrow>
        lengthLoop (Arr xs # next # rest) len = lengthLoop (next # rest) len
        \<and> lengthLoop (prev # Arr xs # rest) len = lengthLoop (Arr xs # rest) len
        \<and> foldCoord env (Arr xs) = Inr env
        \<and> forEachE foldCoord env (Arr xs # rest) = forEachE foldCoord env rest)"
proof (intro conjI impI)
  show "skipSegment c d = (\<not> numberPair c \<or> \<not> numberPair d)"
    by (rule skipSegment_iff)
next
  assume n: "\<not> numberPair (Arr xs)"
  have skip: "skipSegment (Arr xs) next" "skipSegment prev (Arr xs)"
    using n by (simp_all add: skipSegment_iff)
  have same: "foldCoord env (Arr xs) = Inr env"
    using n by (rule foldCoord_not_numberPair)
  show "lengthLoop (Arr xs # next # rest) len = lengthLoop (next # rest) len"
    using skip(1) by simp
  show "lengthLoop (prev # Arr xs # rest) len = lengthLoop (Arr xs # rest) len"
    using skip(2) by simp
  show "foldCoord env (Arr xs) = Inr env"
    by (rule same)
  show "forEachE foldCoord env (Arr xs # rest) = forEachE foldCoord env rest"
    using same by (simp del: foldCoord.simps)
qed

theorem non_number_pair_skipped_witness:
  "lengthLoop [Arr [Num (Fin 3)], Arr [Num (Fin 0), Num (Fin 0)]] (Fin 7) = Fin 7
   \<and> foldCoord \<lparr>bounds = None, hasValidBounds = False\<rparr> (Arr [Num (Fin 3)])
       = Inr \<lparr>bounds = None, hasValidBounds = False\<rparr>"
  using non_number_pair_skipped
    [of "Arr [Num (Fin 3)]" "Arr [Num (Fin 0), Num (Fin 0)]" "[Num (Fin 3)]"
        "Arr [Num (Fin 0), Num (Fin 0)]" "[]" "Fin 7" "Arr [Num (Fin 0), Num (Fin 0)]"
        "\<lparr>bounds = None, hasValidBounds = False\<rparr>"]
  by simp

text \<open>
  The statement with "not a finite number" in place of "not a number" fails: the pair
  \<open>[Infinity, 0]\<close> is not skipped, the segment from it to \<open>[0, 0]\<close> makes the accumulated
  length NaN, and the envelope builder folds it.
\<close>

theorem non_finite_pair_not_skipped_counterexample:
  "\<not> skipSegment (Arr [Num PInf, Num (Fin 0)]) (Arr [Num (Fin 0), Num (Fin 0)])
   \<and> lengthLoop [Arr [Num PInf, Num (Fin 0)], Arr [Num (Fin 0), Num (Fin 0)]] (Fin 0) = NaN
   \<and> foldCoord \<lparr>bounds = None, hasValidBounds = False\<rparr> (Arr [Num PInf, Num (Fin 0)])
       = Inr \<lparr>bounds = Some ((Fin 0, PInf), (Fin 0, PInf)), hasValidBounds = True\<rparr>"
  by (simp add: skipSegment_def calculateDistance_infinite_longitude LatLngBounds_extend_def)

section \<open>The summary builder\<close>

lemma countFeature_step:
  "map_of (countFeature ec f) k
     = (if hasKind k f \<and> k \<noteq> [] \<and> k \<noteq> ''__proto__'' then Some (orZeroPlus1 (getProp ec k))
        else map_of ec k)"
  by (auto simp add: countFeature_def setProp_def hasKind_def update_conv split: option.splits)

lemma foldl_countFeature_Count:
  assumes "k \<noteq> ''__proto__''" "k \<noteq> []"
  shows "map_of ec k = Some (Count n)
    \<Longrightarrow> map_of (foldl countFeature ec fs) k = Some (Count (n + kindCount k fs))"
proof (induction fs arbitrary: ec n)
  case Nil
  then show ?case by (simp add: kindCount_def)
next
  case (Cons f fs)
  have "map_of (countFeature ec f) k = Some (Count (if hasKind k f then n + 1 else n))"
    using assms Cons.prems by (simp add: countFeature_step getProp_def)
  from Cons.IH [OF this] show ?case by (simp add: kindCount_def)
qed

lemma foldl_countFeature_None:
  assumes "k \<notin> set objectPrototypeNames" "k \<noteq> []"
  shows "map_of ec k = None
    \<Longrightarrow> map_of (foldl countFeature ec fs) k
          = (if kindCount k fs = 0 then None else Some (Count (kindCount k fs)))"
proof (induction fs arbitrary: ec)
  case Nil
  then show ?case by (simp add: kindCount_def)
next
  case (Cons f fs)
  have p: "k \<noteq> ''__proto__''" using assms(1) by (auto simp add: objectPrototypeNames_def)
  show ?case
  proof (cases "hasKind k f")
    case True
    then have "map_of (countFeature ec f) k = Some (Count 1)"
      using assms p Cons.prems by (simp add: countFeature_step getProp_def)
    from foldl_countFeature_Count [OF p assms(2) this, of fs] True
    show ?thesis by (simp add: kindCount_def)
  next
    case False
    then have "map_of (countFeature ec f) k = None"
      using Cons.prems by (simp add: countFeature_step)
    from Cons.IH [OF this] False show ?thesis by (simp add: kindCount_def)
  qed
qed

lemma foldl_countFeature_NonNumber:
  assumes "k \<noteq> ''__proto__''" "k \<noteq> []"
  shows "map_of ec k = Some NonNumber \<Longrightarrow> map_of (foldl countFeature ec fs) k = Some NonNumber"
proof (induction fs arbitrary: ec)
  case Nil
  then show ?case by simp
next
  case (Cons f fs)
  have "map_of (countFeature ec f) k = Some NonNumber"
    using Cons.prems by (simp add: countFeature_step getProp_def)
  from Cons.IH [OF this] show ?case by simp
qed

lemma foldl_countFeature_inherited:
  assumes "k \<in> set objectPrototypeNames" "k \<noteq> ''__proto__''"
  shows "map_of ec k = None
    \<Longrightarrow> map_of (foldl countFeature ec fs) k
          = (if kindCount k fs = 0 then None else Some NonNumber)"
proof (induction fs arbitrary: ec)
  case Nil
  then show ?case by (simp add: kindCount_def)
next
  case (Cons f fs)
  have e: "k \<noteq> []" using assms(1) by (auto simp add: objectPrototypeNames_def)
  show ?case
  proof (cases "hasKind k f")
    case True
    then have "map_of (countFeature ec f) k = Some NonNumber"
      using assms e Cons.prems by (simp add: countFeature_step getProp_def)
    from foldl_countFeature_NonNumber [OF assms(2) e this, of fs] True
    show ?thesis by (simp add: kindCount_def)
  next
    case False
    then have "map_of (countFeature ec f) k = None"
      using Cons.prems by (simp add: countFeature_step)
    from Cons.IH [OF this] False show ?thesis by (simp add: kindCount_def)
  qed
qed

lemma foldl_countFeature_unchanged:
  assumes "k = [] \<or> k = ''__proto__''"
  shows "map_of (foldl countFeature ec fs) k = map_of ec k"
proof (induction fs arbitrary: ec)
  case Nil
  show ?case by simp
next
  case (Cons f fs)
  have "map_of (countFeature ec f) k = map_of ec k"
    using assms by (auto simp add: countFeature_step)
  with Cons.IH [of "countFeature ec f"] show ?case by simp
qed

lemma summarize_other_key:
  assumes "k \<notin> set recognizedKinds"
  shows "map_of (summarize fs) k
     = (if k = [] \<or> k = ''__proto__'' \<or> kindCount k fs = 0 then None
        else if k \<in> set objectPrototypeNames then Some NonNumber
        else Some (Count (kindCount k fs)))"
proof -
  have none: "map_of initialCount k = None"
    using assms by (auto simp add: initialCount_def recognizedKinds_def)
  consider (unch) "k = [] \<or> k = ''__proto__''"
    | (inh) "k \<in> set objectPrototypeNames" "k \<noteq> ''__proto__''" "k \<noteq> []"
    | (own) "k \<notin> set objectPrototypeNames" "k \<noteq> []" "k \<noteq> ''__proto__''"
    by blast
  then show ?thesis
  proof cases
    case unch
    from foldl_countFeature_unchanged [OF this, of initialCount fs] none unch
    show ?thesis by (auto simp add: summarize_def)
  next
    case inh
    from foldl_countFeature_inherited [OF inh(1,2) none, of fs] inh
    show ?thesis by (simp add: summarize_def)
  next
    case own
    from foldl_countFeature_None [OF own(1,2) none, of fs] own
    show ?thesis by (simp add: summarize_def)
  qed
qed

lemma countFeature_distinct:
  "distinct (map fst ec) \<Longrightarrow> distinct (map fst (countFeature ec f))"
  by (simp add: countFeature_def setProp_def distinct_update split: option.split)

lemma foldl_countFeature_distinct:
  "distinct (map fst ec) \<Longrightarrow> distinct (map fst (foldl countFeature ec fs))"
  by (induction fs arbitrary: ec) (simp_all add: countFeature_distinct)

lemma summaryTotal_update:
  "summaryTotal (AList.update k v ec) + (case map_of ec k of None \<Rightarrow> 0 | Some w \<Rightarrow> countOf w)
     = summaryTotal ec + countOf v"
  by (induction ec) (auto simp add: summaryTotal_def)

lemma countFeature_total:
  assumes inv: "\<And>k v. map_of ec k = Some v \<Longrightarrow> (v = NonNumber) = (k \<in> set objectPrototypeNames)"
  shows "summaryTotal (countFeature ec f) = summaryTotal ec + (if ownKind f then 1 else 0)"
    and "map_of (countFeature ec f) k = Some v \<Longrightarrow> (v = NonNumber) = (k \<in> set objectPrototypeNames)"
proof -
  have "summaryTotal (countFeature ec f) = summaryTotal ec + (if ownKind f then 1 else 0)
    \<and> (map_of (countFeature ec f) k = Some v \<longrightarrow> (v = NonNumber) = (k \<in> set objectPrototypeNames))"
  proof (cases "geometry f")
    case None
    then show ?thesis using inv by (simp add: countFeature_def ownKind_def)
  next
    case (Some g)
    define t where "t = Geometry.type g"
    consider (skip) "t = [] \<or> t = ''__proto__''"
      | (inh) "t \<in> set objectPrototypeNames" "t \<noteq> ''__proto__''" "t \<noteq> []"
      | (own) "t \<notin> set objectPrototypeNames" "t \<noteq> []" "t \<noteq> ''__proto__''"
      by blast
    then show ?thesis
    proof cases
      case skip
      then have "countFeature ec f = ec"
        using Some by (auto simp add: countFeature_def setProp_def t_def)
      moreover have "\<not> ownKind f"
        using Some skip by (auto simp add: ownKind_def t_def objectPrototypeNames_def)
      ultimately show ?thesis using inv by simp
    next
      case inh
      have g: "getProp ec t = Some NonNumber"
        using inh(1) inv [of t] by (auto simp add: getProp_def split: option.splits)
      have cf: "countFeature ec f = AList.update t NonNumber ec"
        using Some inh g by (simp add: countFeature_def setProp_def t_def)
      have old: "(case map_of ec t of None \<Rightarrow> 0 | Some w \<Rightarrow> countOf w) = 0"
        using inh(1) inv [of t] by (auto split: option.splits)
      have "\<not> ownKind f" using Some inh by (simp add: ownKind_def t_def)
      moreover have "summaryTotal (AList.update t NonNumber ec) = summaryTotal ec"
        using summaryTotal_update [of t NonNumber ec] old by simp
      ultimately show ?thesis
        unfolding cf using inv [of k v] inh(1) by (auto simp add: update_conv)
    next
      case own
      obtain n where g: "orZeroPlus1 (getProp ec t) = Count (Suc n)"
        "(case map_of ec t of None \<Rightarrow> 0 | Some w \<Rightarrow> countOf w) = n"
      proof (cases "map_of ec t")
        case None
        then show ?thesis using own(1) that [of 0] by (simp add: getProp_def)
      next
        case (Some w)
        with inv [of t w] own(1) obtain m where "w = Count m" by (cases w) auto
        with Some show ?thesis using that [of m] by (simp add: getProp_def)
      qed
      have cf: "countFeature ec f = AList.update t (Count (Suc n)) ec"
        using Some own g(1) by (simp add: countFeature_def setProp_def t_def)
      have "ownKind f" using Some own by (simp add: ownKind_def t_def)
      moreover have "summaryTotal (AList.update t (Count (Suc n)) ec) = summaryTotal ec + 1"
        using summaryTotal_update [of t "Count (Suc n)" ec] g(2) by simp
      ultimately show ?thesis
        unfolding cf using inv [of k v] own(1) by (auto simp add: update_conv)
    qed
  qed
  then show "summaryTotal (countFeature ec f) = summaryTotal ec + (if ownKind f then 1 else 0)"
    and "map_of (countFeature ec f) k = Some v \<Longrightarrow> (v = NonNumber) = (k \<in> set objectPrototypeNames)"
    by blast+
qed

lemma foldl_countFeature_total:
  "(\<And>k v. map_of ec k = Some v \<Longrightarrow> (v = NonNumber) = (k \<in> set objectPrototypeNames))
   \<Longrightarrow> summaryTotal (foldl countFeature ec fs) = summaryTotal ec + ownKindCount fs"
proof (induction fs arbitrary: ec)
  case Nil
  show ?case by (simp add: ownKindCount_def)
next
  case (Cons f fs)
  have "summaryTotal (foldl countFeature (countFeature ec f) fs)
      = summaryTotal (countFeature ec f) + ownKindCount fs"
    by (rule Cons.IH) (rule countFeature_total(2) [OF Cons.prems])
  also have "summaryTotal (countFeature ec f) = summaryTotal ec + (if ownKind f then 1 else 0)"
    by (rule countFeature_total(1) [OF Cons.prems])
  finally show ?case by (simp add: ownKindCount_def)
qed

lemma summarize_total: "summaryTotal (summarize fs) = ownKindCount fs"
proof -
  have "summaryTotal (foldl countFeature initialCount fs) = summaryTotal initialCount + ownKindCount fs"
    by (rule foldl_countFeature_total)
       (auto simp add: initialCount_def objectPrototypeNames_def split: if_splits)
  then show ?thesis by (simp add: summarize_def initialCount_def summaryTotal_def)
qed

lemma summarize_key:
  assumes "k \<noteq> ''__proto__''" "k \<noteq> []" "map_of initialCount k = Some (Count 0)"
  shows "map_of (summarize fs) k = Some (Count (kindCount k fs))"
  using foldl_countFeature_Count [OF assms, of fs] by (simp add: summarize_def)

lemma kindCount_sum:
  "kindCount ''Point'' fs + kindCount ''LineString'' fs + kindCount ''Polygon'' fs
     + kindCount ''MultiLineString'' fs = recognizedCount fs"
  by (induction fs)
     (auto simp add: kindCount_def recognizedCount_def recognizedKinds_def hasKind_def
           split: option.splits)

text \<open>
  C1, as amended: for every feature collection the four fixed keys Point, LineString,
  Polygon and MultiLineString are present in the summary, each with the number of
  features whose geometry is present and of that kind, so that the values under the
  four fixed keys sum to the number of features with a present geometry of a
  recognized kind.  Features of an unrecognized kind are not left out: a kind \<open>k\<close>
  outside the four is a key of the summary exactly when \<open>k\<close> is not empty, is not
  \<open>__proto__\<close>, and some feature with a present geometry has the kind \<open>k\<close>; its value is
  the number of those features, or a value that is not a number when \<open>k\<close> is a name
  that every object inherits (\<open>constructor\<close>, \<open>toString\<close> and the like).  The counts of
  the summary sum to the number of features whose geometry is present and whose kind
  is not empty and not an inherited name.  No key occurs twice.
\<close>

theorem summarize_keys_and_total:
  "map_of (summarize fs) ''Point'' = Some (Count (kindCount ''Point'' fs))
   \<and> map_of (summarize fs) ''LineString'' = Some (Count (kindCount ''LineString'' fs))
   \<and> map_of (summarize fs) ''Polygon'' = Some (Count (kindCount ''Polygon'' fs))
   \<and> map_of (summarize fs) ''MultiLineString'' = Some (Count (kindCount ''MultiLineString'' fs))
   \<and> kindCount ''Point'' fs + kindCount ''LineString'' fs + kindCount ''Polygon'' fs
       + kindCount ''MultiLineString'' fs = recognizedCount fs
   \<and> (k \<notin> set recognizedKinds \<longrightarrow>
        map_of (summarize fs) k
          = (if k = [] \<or> k = ''__proto__'' \<or> kindCount k fs = 0 then None
             else if k \<in> set objectPrototypeNames then Some NonNumber
             else Some (Count (kindCount k fs))))
   \<and> summaryTotal (summarize fs) = ownKindCount fs
   \<and> distinct (map fst (summarize fs))"
proof (intro conjI impI)
  show "map_of (summarize fs) ''Point'' = Some (Count (kindCount ''Point'' fs))"
    by (rule summarize_key) (simp_all add: initialCount_def)
  show "map_of (summarize fs) ''LineString'' = Some (Count (kindCount ''LineString'' fs))"
    by (rule summarize_key) (simp_all add: initialCount_def)
  show "map_of (summarize fs) ''Polygon'' = Some (Count (kindCount ''Polygon'' fs))"
    by (rule summarize_key) (simp_all add: initialCount_def)
  show "map_of (summarize fs) ''MultiLineString'' = Some (Count (kindCount ''MultiLineString'' fs))"
    by (rule summarize_key) (simp_all add: initialCount_def)
  show "kindCount ''Point'' fs + kindCount ''LineString'' fs + kindCount ''Polygon'' fs
       + kindCount ''MultiLineString'' fs = recognizedCount fs"
    by (rule kindCount_sum)
  show "summaryTotal (summarize fs) = ownKindCount fs"
    by (rule summarize_total)
  show "distinct (map fst (summarize fs))"
    unfolding summarize_def by (rule foldl_countFeature_distinct) (simp add: initialCount_def)
next
  assume "k \<notin> set recognizedKinds"
  then show "map_of (summarize fs) k
          = (if k = [] \<or> k = ''__proto__'' \<or> kindCount k fs = 0 then None
             else if k \<in> set objectPrototypeNames then Some NonNumber
             else Some (Count (kindCount k fs)))"
    by (rule summarize_other_key)
qed

theorem summarize_keys_and_total_witness:
  "map_of (summarize
      [\<lparr>geometry = Some \<lparr>Geometry.type = ''Point'', coordinates = [Num (Fin 1), Num (Fin 2)]\<rparr>,
        properties = \<lparr>Properties.name = None\<rparr>\<rparr>,
       \<lparr>geometry = Some \<lparr>Geometry.type = ''MultiPoint'', coordinates = []\<rparr>,
        properties = \<lparr>Properties.name = None\<rparr>\<rparr>,
       \<lparr>geometry = None, properties = \<lparr>Properties.name = None\<rparr>\<rparr>]) ''Point''
     = Some (Count 1)
   \<and> ''MultiPoint'' \<notin> set recognizedKinds
   \<and> map_of (summarize
      [\<lparr>geometry = Some \<lparr>Geometry.type = ''Point'', coordinates = [Num (Fin 1), Num (Fin 2)]\<rparr>,
        properties = \<lparr>Properties.name = None\<rparr>\<rparr>,
       \<lparr>geometry = Some \<lparr>Geometry.type = ''MultiPoint'', coordinates = []\<rparr>,
        properties = \<lparr>Properties.name = None\<rparr>\<rparr>,
       \<lparr>geometry = None, properties = \<lparr>Properties.name = None\<rparr>\<rparr>]) ''MultiPoint''
     = Some (Count 1)
   \<and> summaryTotal (summarize
      [\<lparr>geometry = Some \<lparr>Geometry.type = ''Point'', coordinates = [Num (Fin 1), Num (Fin 2)]\<rparr>,
        properties = \<lparr>Properties.name = None\<rparr>\<rparr>,
       \<lparr>geometry = Some \<lparr>Geometry.type = ''MultiPoint'', coordinates = []\<rparr>,
        properties = \<lparr>Properties.name = None\<rparr>\<rparr>,
       \<lparr>geometry = None, properties = \<lparr>Properties.name = None\<rparr>\<rparr>]) = 2"
  using summarize_keys_and_total
    [of "[\<lparr>geometry = Some \<lparr>Geometry.type = ''Point'', coordinates = [Num (Fin 1), Num (Fin 2)]\<rparr>,
        properties = \<lparr>Properties.name = None\<rparr>\<rparr>,
       \<lparr>geometry = Some \<lparr>Geometry.type = ''MultiPoint'', coordinates = []\<rparr>,
        properties = \<lparr>Properties.name = None\<rparr>\<rparr>,
       \<lparr>geometry = None, properties = \<lparr>Properties.name = None\<rparr>\<rparr>]" "''MultiPoint''"]
  by (simp add: kindCount_def hasKind_def recognizedKinds_def objectPrototypeNames_def
        ownKindCount_def ownKind_def)

text \<open>
  The statement that the summary has exactly the four fixed keys and that all its
  values sum to the number of features of a recognized kind fails: a feature of kind
  MultiPoint adds a fifth key, with the count \<open>1\<close>.
\<close>

theorem summarize_unrecognized_kind_counterexample:
  "summarize [\<lparr>geometry = Some \<lparr>Geometry.type = ''MultiPoint'',
                                coordinates = [Arr [Num (Fin 1), Num (Fin 2)]]\<rparr>,
              properties = \<lparr>Properties.name = None\<rparr>\<rparr>]
     = [(''Point'', Count 0), (''LineString'', Count 0), (''Polygon'', Count 0),
        (''MultiLineString'', Count 0), (''MultiPoint'', Count 1)]
   \<and> summaryTotal (summarize [\<lparr>geometry = Some \<lparr>Geometry.type = ''MultiPoint'',
                                coordinates = [Arr [Num (Fin 1), Num (Fin 2)]]\<rparr>,
              properties = \<lparr>Properties.name = None\<rparr>\<rparr>]) = 1
   \<and> recognizedCount [\<lparr>geometry = Some \<lparr>Geometry.type = ''MultiPoint'',
                                coordinates = [Arr [Num (Fin 1), Num (Fin 2)]]\<rparr>,
              properties = \<lparr>Properties.name = None\<rparr>\<rparr>] = 0"
  by (simp add: summarize_def countFeature_def setProp_def getProp_def initialCount_def
        objectPrototypeNames_def summaryTotal_def recognizedCount_def recognizedKinds_def
        hasKind_def)

section \<open>The envelope builder\<close>

text \<open>
  A property of the state that each folded position switches on, and that nothing
  else changes, is on at the end exactly when it was on at the start or a position
  was folded.  This is stated once for any such property and used for the flag
  \<open>hasValidBounds\<close> and for the validity of the accumulator.
\<close>

lemma forEachE_track:
  assumes step: "\<And>s x s'. f s x = Inr s' \<Longrightarrow> flag s' = (flag s \<or> pos x \<noteq> [])"
    and run: "forEachE f s xs = Inr s'"
  shows "flag s' = (flag s \<or> concat (map pos xs) \<noteq> [])"
  using run
proof (induction xs arbitrary: s)
  case Nil
  then show ?case by simp
next
  case (Cons x xs)
  from Cons.prems obtain s1 where one: "f s x = Inr s1" and rest: "forEachE f s1 xs = Inr s'"
    by (auto split: sum.splits)
  from step [OF one] Cons.IH [OF rest] show ?case by auto
qed

lemma positions_Cons: "positions (c # cs) = positions [c] @ positions cs"
  by (induction c rule: numberPair.induct) simp_all

lemma positions_concat: "positions cs = concat (map (\<lambda>c. positions [c]) cs)"
  by (induction cs) (simp, subst positions_Cons, simp)

lemma foldCoord_flags:
  assumes "foldCoord env c = Inr env'"
  shows "hasValidBounds env' = (hasValidBounds env \<or> positions [c] \<noteq> [])"
    and "LatLngBounds_isValid (bounds env') = (LatLngBounds_isValid (bounds env) \<or> positions [c] \<noteq> [])"
  using assms
  by (induction c rule: numberPair.induct)
     (auto simp add: Let_def LatLngBounds_extend_def LatLngBounds_isValid_def
           split: if_splits sum.splits option.splits)

lemma forEachE_foldCoord_track:
  assumes coord: "\<And>env c env'. foldCoord env c = Inr env' \<Longrightarrow> flag env' = (flag env \<or> positions [c] \<noteq> [])"
    and run: "forEachE foldCoord env cs = Inr env'"
  shows "flag env' = (flag env \<or> positions cs \<noteq> [])"
  unfolding positions_concat [of cs]
  by (rule forEachE_track [where f = foldCoord and flag = flag and pos = "\<lambda>c. positions [c]",
        OF coord run])

lemma foldLine_track:
  assumes coord: "\<And>env c env'. foldCoord env c = Inr env' \<Longrightarrow> flag env' = (flag env \<or> positions [c] \<noteq> [])"
    and run: "foldLine env l = Inr env'"
  shows "flag env' = (flag env \<or> linePositions l \<noteq> [])"
proof (cases l)
  case (Num x)
  with run show ?thesis by simp
next
  case (Arr coords)
  with run have "forEachE foldCoord env coords = Inr env'" by simp
  from forEachE_foldCoord_track [where flag = flag, OF coord this] Arr show ?thesis by simp
qed

lemma foldFeature_track:
  assumes coord: "\<And>env c env'. foldCoord env c = Inr env' \<Longrightarrow> flag env' = (flag env \<or> positions [c] \<noteq> [])"
    and run: "foldFeature env f = Inr env'"
  shows "flag env' = (flag env \<or> featurePositions f \<noteq> [])"
proof (cases "geometry f")
  case None
  with run show ?thesis by (simp add: foldFeature_def featurePositions_def)
next
  case (Some g)
  consider (point) "Geometry.type g = ''Point''"
    | (line) "Geometry.type g = ''LineString''"
    | (multi) "Geometry.type g = ''MultiLineString''"
    | (other) "Geometry.type g \<noteq> ''Point''" "Geometry.type g \<noteq> ''LineString''"
              "Geometry.type g \<noteq> ''MultiLineString''"
    by blast
  then show ?thesis
  proof cases
    case point
    with run Some have "foldCoord env (Arr (coordinates g)) = Inr env'"
      by (simp add: foldFeature_def)
    from coord [OF this] point Some show ?thesis
      by (simp add: featurePositions_def)
  next
    case line
    with run Some have "forEachE foldCoord env (coordinates g) = Inr env'"
      by (simp add: foldFeature_def)
    from forEachE_foldCoord_track [where flag = flag, OF coord this] line Some show ?thesis
      by (simp add: featurePositions_def)
  next
    case multi
    with run Some have fl: "forEachE foldLine env (coordinates g) = Inr env'"
      by (simp add: foldFeature_def)
    have "flag env' = (flag env \<or> concat (map linePositions (coordinates g)) \<noteq> [])"
      by (rule forEachE_track [where f = foldLine and flag = flag and pos = linePositions,
            OF foldLine_track fl]) (rule coord)
    with multi Some show ?thesis by (simp add: featurePositions_def)
  next
    case other
    with run Some show ?thesis by (simp add: foldFeature_def featurePositions_def)
  qed
qed

lemma forEachE_foldFeature_track:
  assumes coord: "\<And>env c env'. foldCoord env c = Inr env' \<Longrightarrow> flag env' = (flag env \<or> positions [c] \<noteq> [])"
    and run: "forEachE foldFeature env fs = Inr env'"
  shows "flag env' = (flag env \<or> collectionPositions fs \<noteq> [])"
  unfolding collectionPositions_def
  by (rule forEachE_track [where f = foldFeature and flag = flag and pos = featurePositions,
        OF foldFeature_track run]) (rule coord)

text \<open>
  The effect runs to its end on a collection of the expected shape in which no
  number pair holds a NaN.
\<close>

lemma forEachE_total:
  assumes step: "\<And>s x. good x \<Longrightarrow> \<exists>s'. f s x = Inr s'"
    and all: "list_all good xs"
  shows "\<exists>s'. forEachE f s xs = Inr s'"
  using all
proof (induction xs arbitrary: s)
  case Nil
  show ?case by simp
next
  case (Cons x xs)
  then have "good x" and rest: "list_all good xs" by simp_all
  from step [OF this(1)] obtain s1 where "f s x = Inr s1" by blast
  with Cons.IH [OF rest, of s1] show ?case by simp
qed

lemma foldCoord_total:
  assumes "isArr c \<and> list_all noNaN (positions [c])"
  shows "\<exists>env'. foldCoord env c = Inr env'"
  using assms
  by (induction c rule: numberPair.induct)
     (auto simp add: Let_def LatLngBounds_extend_def noNaN_def)

lemma list_all_positions:
  "list_all noNaN (positions cs) = list_all (\<lambda>c. list_all noNaN (positions [c])) cs"
proof (induction cs)
  case Nil
  show ?case by simp
next
  case (Cons c cs)
  have "list_all noNaN (positions (c # cs))
      = (list_all noNaN (positions [c]) \<and> list_all noNaN (positions cs))"
    by (subst positions_Cons) simp
  with Cons show ?case by simp
qed

lemma forEachE_foldCoord_total:
  assumes "list_all isArr cs" and "list_all noNaN (positions cs)"
  shows "\<exists>env'. forEachE foldCoord env cs = Inr env'"
proof -
  have "list_all (\<lambda>c. list_all noNaN (positions [c])) cs"
    using assms(2) by (rule list_all_positions [THEN iffD1])
  with assms(1) have all: "list_all (\<lambda>c. isArr c \<and> list_all noNaN (positions [c])) cs"
    by (simp add: list_all_iff)
  show ?thesis
    by (rule forEachE_total
          [where f = foldCoord and good = "\<lambda>c. isArr c \<and> list_all noNaN (positions [c])",
           OF foldCoord_total all])
qed

lemma foldLine_total:
  assumes "lineOfArrays l \<and> list_all noNaN (linePositions l)"
  shows "\<exists>env'. foldLine env l = Inr env'"
  using assms by (cases l) (simp_all add: forEachE_foldCoord_total)

lemma foldFeature_total:
  assumes "wellShaped f \<and> list_all noNaN (featurePositions f)"
  shows "\<exists>env'. foldFeature env f = Inr env'"
proof (cases "geometry f")
  case None
  then show ?thesis by (simp add: foldFeature_def)
next
  case (Some g)
  consider (point) "Geometry.type g = ''Point''"
    | (line) "Geometry.type g = ''LineString''"
    | (multi) "Geometry.type g = ''MultiLineString''"
    | (other) "Geometry.type g \<noteq> ''Point''" "Geometry.type g \<noteq> ''LineString''"
              "Geometry.type g \<noteq> ''MultiLineString''"
    by blast
  then show ?thesis
  proof cases
    case point
    with assms Some have "isArr (Arr (coordinates g))
        \<and> list_all noNaN (positions [Arr (coordinates g)])"
      by (simp add: featurePositions_def)
    from foldCoord_total [OF this, of env] point Some show ?thesis
      by (simp add: foldFeature_def)
  next
    case line
    with assms Some have "list_all isArr (coordinates g)" "list_all noNaN (positions (coordinates g))"
      by (simp_all add: featurePositions_def wellShaped_def)
    from forEachE_foldCoord_total [OF this, of env] line Some show ?thesis
      by (simp add: foldFeature_def)
  next
    case multi
    with assms Some have "list_all lineOfArrays (coordinates g)"
      and "list_all noNaN (concat (map linePositions (coordinates g)))"
      by (simp_all add: featurePositions_def wellShaped_def)
    then have all: "list_all (\<lambda>l. lineOfArrays l \<and> list_all noNaN (linePositions l)) (coordinates g)"
      by (auto simp add: list_all_iff)
    have "\<exists>env'. forEachE foldLine env (coordinates g) = Inr env'"
      by (rule forEachE_total
            [where f = foldLine and good = "\<lambda>l. lineOfArrays l \<and> list_all noNaN (linePositions l)",
             OF foldLine_total all])
    with multi Some show ?thesis by (simp add: foldFeature_def)
  next
    case other
    with Some show ?thesis by (simp add: foldFeature_def)
  qed
qed

lemma MapUpdater_total:
  assumes "list_all wellShaped (features g)"
    and "list_all noNaN (collectionPositions (features g))"
  shows "\<exists>r. MapUpdater (Some g) = Inr r"
proof -
  have all: "list_all (\<lambda>f. wellShaped f \<and> list_all noNaN (featurePositions f)) (features g)"
    using assms by (auto simp add: list_all_iff collectionPositions_def)
  have "\<exists>env. forEachE foldFeature \<lparr>bounds = None, hasValidBounds = False\<rparr> (features g) = Inr env"
    by (rule forEachE_total
          [where f = foldFeature and good = "\<lambda>f. wellShaped f \<and> list_all noNaN (featurePositions f)",
           OF foldFeature_total all])
  then show ?thesis by (auto simp add: MapUpdater_def)
qed

text \<open>
  C9, as amended: the effect of \<open>MapUpdater\<close> runs to its end on every collection of
  the expected shape whose number pairs hold no NaN, and whenever it runs to its end
  it leaves the viewport alone (the envelope is invalid) exactly when it folded no
  position, that is, when the collection holds no coordinate pair of two numbers in
  a geometry of kind Point, LineString or MultiLineString; an empty collection
  yields an invalid envelope.
\<close>

theorem MapUpdater_invalid_iff_nothing_folded:
  "(list_all wellShaped (features g) \<and> list_all noNaN (collectionPositions (features g))
      \<longrightarrow> (\<exists>res. MapUpdater (Some g) = Inr res))
   \<and> (MapUpdater (Some g) = Inr r \<longrightarrow> (r = None) = (collectionPositions (features g) = []))
   \<and> MapUpdater (Some \<lparr>features = []\<rparr>) = Inr None"
proof (intro conjI impI)
  assume "list_all wellShaped (features g) \<and> list_all noNaN (collectionPositions (features g))"
  then show "\<exists>res. MapUpdater (Some g) = Inr res"
    using MapUpdater_total [of g] by blast
next
  assume run: "MapUpdater (Some g) = Inr r"
  show "(r = None) = (collectionPositions (features g) = [])"
  proof (cases "features g = []")
    case True
    with run show ?thesis by (simp add: MapUpdater_def collectionPositions_def)
  next
    case False
    with run obtain env where
      fold: "forEachE foldFeature \<lparr>bounds = None, hasValidBounds = False\<rparr> (features g) = Inr env"
      and r: "r = (if hasValidBounds env \<and> LatLngBounds_isValid (bounds env) then Some (bounds env) else None)"
      by (auto simp add: MapUpdater_def split: sum.splits if_splits)
    have "hasValidBounds env = (collectionPositions (features g) \<noteq> [])"
      using forEachE_foldFeature_track [where flag = hasValidBounds, OF foldCoord_flags(1) fold]
      by simp
    moreover have "LatLngBounds_isValid (bounds env) = (collectionPositions (features g) \<noteq> [])"
      using forEachE_foldFeature_track
        [where flag = "\<lambda>e. LatLngBounds_isValid (bounds e)", OF foldCoord_flags(2) fold]
      by (simp add: LatLngBounds_isValid_def)
    ultimately show ?thesis using r by simp
  qed
next
  show "MapUpdater (Some \<lparr>features = []\<rparr>) = Inr None"
    by (simp add: MapUpdater_def)
qed

theorem MapUpdater_invalid_iff_nothing_folded_witness:
  "(\<exists>res. MapUpdater (Some \<lparr>features =
      [\<lparr>geometry = Some \<lparr>Geometry.type = ''Point'', coordinates = [Num (Fin 20), Num (Fin 10)]\<rparr>,
        properties = \<lparr>Properties.name = None\<rparr>\<rparr>]\<rparr>) = Inr res)
   \<and> collectionPositions (features \<lparr>features =
      [\<lparr>geometry = Some \<lparr>Geometry.type = ''Point'', coordinates = [Num (Fin 20), Num (Fin 10)]\<rparr>,
        properties = \<lparr>Properties.name = None\<rparr>\<rparr>]\<rparr>) \<noteq> []"
proof -
  have shape: "list_all wellShaped (features \<lparr>features =
      [\<lparr>geometry = Some \<lparr>Geometry.type = ''Point'', coordinates = [Num (Fin 20), Num (Fin 10)]\<rparr>,
        properties = \<lparr>Properties.name = None\<rparr>\<rparr>]\<rparr>)
      \<and> list_all noNaN (collectionPositions (features \<lparr>features =
      [\<lparr>geometry = Some \<lparr>Geometry.type = ''Point'', coordinates = [Num (Fin 20), Num (Fin 10)]\<rparr>,
        properties = \<lparr>Properties.name = None\<rparr>\<rparr>]\<rparr>))"
    by (simp add: wellShaped_def noNaN_def collectionPositions_def featurePositions_def)
  have run: "MapUpdater (Some \<lparr>features =
      [\<lparr>geometry = Some \<lparr>Geometry.type = ''Point'', coordinates = [Num (Fin 20), Num (Fin 10)]\<rparr>,
        properties = \<lparr>Properties.name = None\<rparr>\<rparr>]\<rparr>)
     = Inr (Some (Some ((Fin 10, Fin 20), (Fin 10, Fin 20))))"
    by (simp add: MapUpdater_def foldFeature_def LatLngBounds_extend_def
          LatLngBounds_isValid_def Let_def)
  from MapUpdater_invalid_iff_nothing_folded
    [of "\<lparr>features =
      [\<lparr>geometry = Some \<lparr>Geometry.type = ''Point'', coordinates = [Num (Fin 20), Num (Fin 10)]\<rparr>,
        properties = \<lparr>Properties.name = None\<rparr>\<rparr>]\<rparr>" "Some (Some ((Fin 10, Fin 20), (Fin 10, Fin 20)))"] shape run
  show ?thesis by simp
qed

text \<open>
  The statement that a collection whose coordinates are all non-finite yields an
  invalid envelope fails: the point \<open>[Infinity, -Infinity]\<close> is folded, and the viewport
  is fitted to the envelope that holds it alone.
\<close>

theorem infinite_point_fitted_counterexample:
  "MapUpdater (Some \<lparr>features =
      [\<lparr>geometry = Some \<lparr>Geometry.type = ''Point'', coordinates = [Num PInf, Num NInf]\<rparr>,
        properties = \<lparr>Properties.name = None\<rparr>\<rparr>]\<rparr>)
     = Inr (Some (Some ((NInf, PInf), (NInf, PInf))))"
  by (simp add: MapUpdater_def foldFeature_def LatLngBounds_extend_def LatLngBounds_isValid_def Let_def)

section \<open>The handlers\<close>

text \<open>
  With a collection loaded, \<open>showSummary\<close> stores the summary and \<open>showDetails\<close> the list
  of items that the theorems above describe.
\<close>

lemma summary_showSummary:
  "geoJson st = Some g \<Longrightarrow> summary (showSummary st) = Some (summarize (features g))"
  by (simp add: showSummary_def)

lemma details_showDetails:
  "geoJson st = Some g \<Longrightarrow> details (showDetails st) = Some (detailedDataOf (features g))"
  by (simp add: showDetails_def)

end
